theory Spec2Isabelle
  imports Main "HOL-Library.Word" "HOL-Library.Sublist"
begin

section \<open>JavaScript values used by the component\<close>

text \<open>
  A JavaScript string is a sequence of UTF-16 code units. The literals of the source are
  ASCII, so \<open>utf16\<close> maps each character of a HOL literal to the code unit of the same
  number.
\<close>

type_synonym js_char = "16 word"
type_synonym js_string = "js_char list"

definition utf16 :: "string \<Rightarrow> js_string" where
  "utf16 s = map (\<lambda>c. of_nat (of_char c)) s"

text \<open>
  \<open>String.prototype.trim\<close> removes, at both ends, the code units that ECMAScript calls
  WhiteSpace (TAB, VT, FF, ZWNBSP and the space separators) or LineTerminator
  (LF, CR, LS, PS).
\<close>

definition isWhiteSpace :: "js_char \<Rightarrow> bool" where
  "isWhiteSpace c \<longleftrightarrow>
     c = 0x0009 \<or> c = 0x000A \<or> c = 0x000B \<or> c = 0x000C \<or> c = 0x000D \<or> c = 0x0020 \<or>
     c = 0x00A0 \<or> c = 0x1680 \<or> (0x2000 \<le> c \<and> c \<le> 0x200A) \<or> c = 0x2028 \<or>
     c = 0x2029 \<or> c = 0x202F \<or> c = 0x205F \<or> c = 0x3000 \<or> c = 0xFEFF"

definition trim :: "js_string \<Rightarrow> js_string" where
  "trim s = rev (dropWhile isWhiteSpace (rev (dropWhile isWhiteSpace s)))"

text \<open>
  A template literal \<open>${n}\<close> of a non-negative integer (an array length) prints it in
  decimal, without leading zeros.
\<close>

fun toString :: "nat \<Rightarrow> js_string" where
  "toString n =
     (if n < 10 then [of_nat (48 + n)]
      else toString (n div 10) @ [of_nat (48 + n mod 10)])"

declare toString.simps [simp del]

text \<open>
  What a \<open>catch (e)\<close> can receive: an instance of \<open>Error\<close> with its message, or any
  other value (here with a printable rendering, which the component never reads).
\<close>

datatype js_thrown = Thrown_error (message: js_string) | Thrown_other js_string

text \<open>
  A promise is modelled by its eventual state; \<open>Pending\<close> is a promise that never
  settles. \<open>promise_then\<close> is \<open>.then(f)\<close> with a callback that cannot throw, and
  \<open>allSettled\<close> is \<open>await Promise.allSettled(ps)\<close>: one result per promise, at the
  promise's index whatever the order in which the promises settle, or \<open>None\<close> when one
  of them never settles and the await never resumes.
\<close>

datatype 'a promise = Fulfilled 'a | Rejected js_thrown | Pending

fun promise_then :: "('a \<Rightarrow> 'b) \<Rightarrow> 'a promise \<Rightarrow> 'b promise" where
  "promise_then f (Fulfilled v) = Fulfilled (f v)"
| "promise_then f (Rejected e) = Rejected e"
| "promise_then f Pending = Pending"

datatype 'a settled_result = Status_fulfilled 'a | Status_rejected js_thrown

fun allSettled :: "'a promise list \<Rightarrow> 'a settled_result list option" where
  "allSettled [] = Some []"
| "allSettled (Fulfilled v # ps) = map_option (Cons (Status_fulfilled v)) (allSettled ps)"
| "allSettled (Rejected e # ps) = map_option (Cons (Status_rejected e)) (allSettled ps)"
| "allSettled (Pending # ps) = None"

section \<open>The data model of app.component.ts\<close>

record Banner =
  imageUrl :: js_string
  aspectRatio :: js_string
  name :: js_string

datatype AspectRatio = Ratio_16_9 | Ratio_4_3 | Ratio_1_1 | Ratio_3_4 | Ratio_9_16

text \<open>The string that a value of the union type \<open>AspectRatio\<close> is at run time.\<close>

fun aspect_text :: "AspectRatio \<Rightarrow> js_string" where
  "aspect_text Ratio_16_9 = utf16 ''16:9''"
| "aspect_text Ratio_4_3 = utf16 ''4:3''"
| "aspect_text Ratio_1_1 = utf16 ''1:1''"
| "aspect_text Ratio_3_4 = utf16 ''3:4''"
| "aspect_text Ratio_9_16 = utf16 ''9:16''"

record BannerFormat =
  name :: js_string
  aspectRatio :: AspectRatio
  description :: js_string

record DesignTemplate =
  name :: js_string
  description :: js_string
  icon :: js_string
  promptFragment :: js_string

text \<open>The signals of the component: its mutable state.\<close>

record AppComponent =
  productDescription :: js_string
  productUrl :: js_string
  generatedBanners :: "Banner list"
  isLoading :: bool
  error :: "js_string option"
  selectedTemplate :: DesignTemplate

definition designTemplates :: "DesignTemplate list" where
  "designTemplates =
    [\<lparr>DesignTemplate.name = utf16 ''Minimalist & Clean'',
      DesignTemplate.description = utf16 ''Focus on whitespace, simplicity, and the core product.'',
      icon = utf16 ''M3.75 6A2.25 2.25 0 001.5 8.25v7.5A2.25 2.25 0 003.75 18h16.5A2.25 2.25 0 0022.5 15.75v-7.5A2.25 2.25 0 0020.25 6H3.75z'',
      promptFragment = utf16 ''The design style must be minimalist and clean. Emphasize negative space, use a simple and muted color palette, and focus on the product as the single hero element. The overall feeling should be modern, airy, and sophisticated.''\<rparr>,
     \<lparr>DesignTemplate.name = utf16 ''Bold & Vibrant'',
      DesignTemplate.description = utf16 ''Use energetic colors and dynamic layouts to grab attention.'',
      icon = utf16 ''M3.75 13.5l10.5-11.25L12 10.5h8.25L9.75 21.75 12 13.5H3.75z'',
      promptFragment = utf16 ''The design style must be bold and vibrant. Use a high-contrast, energetic color palette with dynamic shapes and a layout that creates a sense of excitement and movement. The ad should be eye-catching and demand attention.''\<rparr>,
     \<lparr>DesignTemplate.name = utf16 ''Elegant & Luxurious'',
      DesignTemplate.description = utf16 ''Sophisticated look with premium textures and refined fonts.'',
      icon = utf16 ''M9.813 15.904L9 18.75l-.813-2.846a4.5 4.5 0 00-3.09-3.09L2.25 12l2.846-.813a4.5 4.5 0 003.09-3.09L9 5.25l.813 2.846a4.5 4.5 0 003.09 3.09L15.75 12l-2.846.813a4.5 4.5 0 00-3.09 3.09z'',
      promptFragment = utf16 ''The design style must be elegant and luxurious. Use a rich, sophisticated color palette (like deep blues, golds, or silvers), premium textures (like marble or silk), and a sense of classic, high-end design. The product should look aspirational and premium.''\<rparr>,
     \<lparr>DesignTemplate.name = utf16 ''Futuristic & Techy'',
      DesignTemplate.description = utf16 ''Sleek, modern aesthetic with neon accents and abstract graphics.'',
      icon = utf16 ''M8.25 3v1.5M4.5 8.25H3m18 0h-1.5M4.5 12H3m18 0h-1.5m-15 3.75H3m18 0h-1.5M8.25 19.5V21M12 3v1.5m0 15V21m3.75-18v1.5m0 15V21m-9-1.5h10.5a2.25 2.25 0 002.25-2.25V8.25a2.25 2.25 0 00-2.25-2.25H8.25a2.25 2.25 0 00-2.25 2.25v7.5a2.25 2.25 0 002.25 2.25z'',
      promptFragment = utf16 ''The design style must be futuristic and tech-focused. Incorporate elements like glowing neon lines, abstract digital patterns, dark backgrounds with bright accents, and a sleek, high-tech aesthetic. The ad should feel innovative and cutting-edge.''\<rparr>]"

definition bannerFormats :: "BannerFormat list" where
  "bannerFormats =
    [\<lparr>BannerFormat.name = utf16 ''Leaderboard / Banner'', aspectRatio = Ratio_16_9,
      BannerFormat.description = utf16 ''Wide format for top of page''\<rparr>,
     \<lparr>BannerFormat.name = utf16 ''Medium Rectangle'', aspectRatio = Ratio_4_3,
      BannerFormat.description = utf16 ''Versatile, common format''\<rparr>,
     \<lparr>BannerFormat.name = utf16 ''Square'', aspectRatio = Ratio_1_1,
      BannerFormat.description = utf16 ''Ideal for social media feeds''\<rparr>,
     \<lparr>BannerFormat.name = utf16 ''Portrait'', aspectRatio = Ratio_3_4,
      BannerFormat.description = utf16 ''Vertical format for sidebars''\<rparr>,
     \<lparr>BannerFormat.name = utf16 ''Skyscraper'', aspectRatio = Ratio_9_16,
      BannerFormat.description = utf16 ''Tall format for mobile screens''\<rparr>]"

text \<open>The component as the constructor leaves it (the field initialisers).\<close>

definition initial :: AppComponent where
  "initial =
    \<lparr>productDescription = utf16 ''A high-performance electric mountain bike with a sleek carbon fiber frame, long-lasting battery, and all-terrain tires.'',
     productUrl = utf16 ''www.electricbikes.com/peak-rider-x'',
     generatedBanners = [],
     isLoading = False,
     error = None,
     selectedTemplate = designTemplates ! 0\<rparr>"

section \<open>The input handlers\<close>

text \<open>
  \<open>updateDescription\<close> and \<open>updateUrl\<close> take the event; the model takes the one thing
  they read from it, the \<open>value\<close> of the event's target.
\<close>

definition updateDescription :: "js_string \<Rightarrow> AppComponent \<Rightarrow> AppComponent" where
  "updateDescription v this = this\<lparr>productDescription := v\<rparr>"

definition updateUrl :: "js_string \<Rightarrow> AppComponent \<Rightarrow> AppComponent" where
  "updateUrl v this = this\<lparr>productUrl := v\<rparr>"

definition selectTemplate :: "DesignTemplate \<Rightarrow> AppComponent \<Rightarrow> AppComponent" where
  "selectTemplate template this = this\<lparr>selectedTemplate := template\<rparr>"

section \<open>The generation service and the record of a round\<close>

text \<open>
  \<open>GeminiService.generateBannerImage\<close> is injected: the component knows its signature
  only. The model takes it as a parameter with a state of its own (of any type), so one
  call may answer differently from the next. A call either throws before it returns, or
  returns a promise of the image URL.
\<close>

datatype call_result = Throws js_thrown | Returns "js_string promise"

type_synonym 's GeminiService = "'s \<Rightarrow> js_string \<Rightarrow> AspectRatio \<Rightarrow> call_result \<times> 's"

text \<open>
  Each call of the service is recorded: the format being mapped, the two arguments, the
  component as it is when the call is made, what the call returned, and the promise that
  \<open>.then\<close> chained on the returned one (none when the call threw).
\<close>

record dispatched =
  of_format :: BannerFormat
  prompt :: js_string
  ratio :: AspectRatio
  component :: AppComponent
  returned :: call_result
  chained :: "Banner promise option"

text \<open>
  The point at which a call of \<open>generateBanners\<close> ends: the \<open>return\<close> of the guard,
  the end of the \<open>try\<close> block, or the \<open>catch\<close> block (both followed by \<open>finally\<close>);
  \<open>Never_resumed\<close> is a call whose \<open>await\<close> waits for ever. There is no point at which
  the call ends by throwing.
\<close>

datatype exit_path = Guard_return | After_aggregation | After_catch js_thrown | Never_resumed

record 's round =
  path :: exit_path
  app :: AppComponent
  gemini :: 's
  calls :: "dispatched list"

text \<open>
  While the call is suspended at its \<open>await\<close> the user may go on typing and choosing
  templates; a second \<open>generateBanners\<close> in that time meets the guard.
\<close>

datatype ui_event = UpdateDescription js_string | UpdateUrl js_string | SelectTemplate DesignTemplate

fun handle :: "AppComponent \<Rightarrow> ui_event \<Rightarrow> AppComponent" where
  "handle this (UpdateDescription v) = updateDescription v this"
| "handle this (UpdateUrl v) = updateUrl v this"
| "handle this (SelectTemplate t) = selectTemplate t this"

section \<open>generateBanners\<close>

text \<open>
  The method is modelled part by part, in the order of its lines, and then as a whole.
  What it writes to the console (a rejected result, a caught exception) is no part of the
  component and is left out.
\<close>

text \<open>Lines 94 to 96, the three writes that follow the guard.\<close>

definition begin_round :: "AppComponent \<Rightarrow> AppComponent" where
  "begin_round this = this\<lparr>isLoading := True, error := None, generatedBanners := []\<rparr>"

text \<open>The template literal of lines 98 to 107.\<close>

definition basePrompt :: "AppComponent \<Rightarrow> js_string" where
  \<open>basePrompt this =
     utf16 ''\<newline>      Create a visually stunning, professional banner ad for a product.\<newline>      The ad should be clean, modern, and eye-catching, suitable for a high-end brand.\<newline>      Avoid text overlays, as text will be added later. Focus on compelling product imagery and a suitable background.\<newline>      \<newline>      Product Description: "''
     @ productDescription this
     @ utf16 ''"\<newline>      Product Website (for context): "''
     @ productUrl this
     @ utf16 ''"\<newline>\<newline>      IMPORTANT DESIGN STYLE: ''
     @ promptFragment (selectedTemplate this)
     @ utf16 ''\<newline>    ''\<close>

text \<open>The template literal of line 112, the first argument of the service call.\<close>

definition formatPrompt :: "js_string \<Rightarrow> BannerFormat \<Rightarrow> js_string" where
  \<open>formatPrompt base format =
     base @ utf16 ''\<newline>Generate the ad in a '' @ aspect_text (BannerFormat.aspectRatio format)
     @ utf16 '' aspect ratio, suitable for a "'' @ BannerFormat.name format
     @ utf16 ''" ad format.''\<close>

text \<open>The callback of \<open>.then\<close>, lines 114 to 118.\<close>

definition toBanner :: "BannerFormat \<Rightarrow> js_string \<Rightarrow> Banner" where
  "toBanner format url =
     \<lparr>imageUrl = url,
      Banner.aspectRatio = aspect_text (BannerFormat.aspectRatio format),
      Banner.name = BannerFormat.name format\<rparr>"

text \<open>
  \<open>this.bannerFormats.map(format => ...)\<close>, lines 110 to 119: the formats are visited in
  order; a call that throws ends the map with that exception, and the promises made so
  far are dropped.
\<close>

fun map_formats ::
  "'s GeminiService \<Rightarrow> AppComponent \<Rightarrow> js_string \<Rightarrow> BannerFormat list \<Rightarrow> 's
     \<Rightarrow> (js_thrown + Banner promise list) \<times> 's \<times> dispatched list" where
  "map_formats generateBannerImage this base [] s = (Inr [], s, [])"
| "map_formats generateBannerImage this base (format # rest) s =
     (case generateBannerImage s (formatPrompt base format) (BannerFormat.aspectRatio format) of
        (Throws e, s') \<Rightarrow>
          (Inl e, s',
           [\<lparr>of_format = format, prompt = formatPrompt base format,
             ratio = BannerFormat.aspectRatio format, component = this,
             returned = Throws e, chained = None\<rparr>])
      | (Returns p, s') \<Rightarrow>
          (case map_formats generateBannerImage this base rest s' of
             (r, s'', log) \<Rightarrow>
               (case r of
                  Inl e \<Rightarrow> Inl e
                | Inr bannerPromises \<Rightarrow> Inr (promise_then (toBanner format) p # bannerPromises),
                s'',
                \<lparr>of_format = format, prompt = formatPrompt base format,
                 ratio = BannerFormat.aspectRatio format, component = this,
                 returned = Returns p, chained = Some (promise_then (toBanner format) p)\<rparr>
                # log)))"

text \<open>
  Lines 123 to 130: the \<open>forEach\<close> pushes the value of each fulfilled result; a
  rejected one is written to the console only.
\<close>

definition successfulBanners :: "Banner settled_result list \<Rightarrow> Banner list" where
  "successfulBanners results =
     foldl (\<lambda>acc result. case result of Status_fulfilled v \<Rightarrow> acc @ [v] | Status_rejected reason \<Rightarrow> acc)
       [] results"

text \<open>Lines 132 to 136.\<close>

definition aggregate :: "Banner settled_result list \<Rightarrow> AppComponent \<Rightarrow> AppComponent" where
  "aggregate results this =
     (let successful = successfulBanners results;
          this' = this\<lparr>generatedBanners := successful\<rparr>
      in if length successful < length bannerFormats
         then this'\<lparr>error := Some (utf16 ''Could not generate all banner formats. Only ''
                 @ toString (length successful) @ utf16 '' of ''
                 @ toString (length bannerFormats) @ utf16 '' were successful.'')\<rparr>
         else this')"

text \<open>Lines 138 to 140.\<close>

definition catch_block :: "js_thrown \<Rightarrow> AppComponent \<Rightarrow> AppComponent" where
  "catch_block e this =
     this\<lparr>error := Some (case e of Thrown_error m \<Rightarrow> m
                          | Thrown_other v \<Rightarrow> utf16 ''An unknown error occurred during generation.'')\<rparr>"

text \<open>Lines 141 to 143.\<close>

definition finally_block :: "AppComponent \<Rightarrow> AppComponent" where
  "finally_block this = this\<lparr>isLoading := False\<rparr>"

text \<open>
  The whole method. \<open>events\<close> are the inputs the user makes while the call is suspended
  at the \<open>await\<close> of line 121; the code before the \<open>await\<close> and the code after it run
  without interruption. The code after the \<open>await\<close> reads no signal, it only writes.
\<close>

definition generateBanners ::
  "'s GeminiService \<Rightarrow> ui_event list \<Rightarrow> AppComponent \<Rightarrow> 's \<Rightarrow> 's round" where
  "generateBanners generateBannerImage events this s =
     (if isLoading this \<or> trim (productDescription this) = []
      then \<lparr>path = Guard_return, app = this, gemini = s, calls = []\<rparr>
      else
        let this1 = begin_round this;
            base = basePrompt this1
        in case map_formats generateBannerImage this1 base bannerFormats s of
             (Inl e, s', log) \<Rightarrow>
               \<lparr>path = After_catch e, app = finally_block (catch_block e this1),
                gemini = s', calls = log\<rparr>
           | (Inr bannerPromises, s', log) \<Rightarrow>
               (let this2 = foldl handle this1 events
                in case allSettled bannerPromises of
                     None \<Rightarrow> \<lparr>path = Never_resumed, app = this2, gemini = s', calls = log\<rparr>
                   | Some results \<Rightarrow>
                       \<lparr>path = After_aggregation, app = finally_block (aggregate results this2),
                        gemini = s', calls = log\<rparr>))"

section \<open>Reading the record of a round\<close>

text \<open>The value a promise is fulfilled with, if it is.\<close>

definition fulfilled_value :: "'a promise \<Rightarrow> 'a option" where
  "fulfilled_value p = (case p of Fulfilled v \<Rightarrow> Some v | _ \<Rightarrow> None)"

text \<open>
  The image URL a request succeeded with: the call returned a promise and the promise
  was fulfilled. \<open>displayed\<close> is the banner such a request stands for.
\<close>

definition fulfilled_url :: "dispatched \<Rightarrow> js_string option" where
  "fulfilled_url c = (case returned c of Returns (Fulfilled url) \<Rightarrow> Some url | _ \<Rightarrow> None)"

definition displayed :: "dispatched \<Rightarrow> Banner option" where
  "displayed c = map_option (toBanner (of_format c)) (fulfilled_url c)"

text \<open>
  \<open>replay\<close> runs a record of calls against the service again, from a given state of
  the service: it gives the state the service ends in when every recorded answer is the
  answer of the service to the recorded prompt and aspect ratio, in the recorded order,
  and \<open>None\<close> when some recorded answer is not.
\<close>

fun replay :: "'s GeminiService \<Rightarrow> 's \<Rightarrow> dispatched list \<Rightarrow> 's option" where
  "replay g s [] = Some s"
| "replay g s (c # cs) =
     (case g s (prompt c) (ratio c) of
        (answer, s') \<Rightarrow> if answer = returned c then replay g s' cs else None)"

text \<open>
  \<open>capturing g\<close> is the service \<open>g\<close> with a spy on it: it answers as \<open>g\<close> does and
  appends the two arguments of every call it receives to a list kept in its state.
\<close>

definition capturing :: "'s GeminiService \<Rightarrow> ('s \<times> (js_string \<times> AspectRatio) list) GeminiService" where
  "capturing g state p a =
     (case g (fst state) p a of
        (answer, s') \<Rightarrow> (answer, (s', snd state @ [(p, a)])))"

section \<open>Test doubles of the service\<close>

text \<open>
  Services for the concrete rounds below. Their state counts the calls made. A successful
  one answers with a URL tagged with the aspect ratio it was asked for.
\<close>

definition tagged_url :: "AspectRatio \<Rightarrow> js_string" where
  "tagged_url a = utf16 ''blob:'' @ aspect_text a"

definition fulfils_all :: "nat GeminiService" where
  "fulfils_all n p a = (Returns (Fulfilled (tagged_url a)), Suc n)"

definition rejects_all :: "nat GeminiService" where
  "rejects_all n p a = (Returns (Rejected (Thrown_error (utf16 ''quota exceeded''))), Suc n)"

definition fails_square_and_skyscraper :: "nat GeminiService" where
  "fails_square_and_skyscraper n p a =
     (if a = Ratio_1_1 \<or> a = Ratio_9_16
      then Returns (Rejected (Thrown_error (utf16 ''quota exceeded'')))
      else Returns (Fulfilled (tagged_url a)), Suc n)"

definition throws_on_second :: "nat GeminiService" where
  "throws_on_second n p a =
     (if n = 1 then Throws (Thrown_error (utf16 ''busy''))
      else Returns (Fulfilled (tagged_url a)), Suc n)"

definition throws_a_string :: "nat GeminiService" where
  "throws_a_string n p a = (Throws (Thrown_other (utf16 ''offline'')), Suc n)"

definition never_settles :: "nat GeminiService" where
  "never_settles n p a = (Returns Pending, Suc n)"

text \<open>A service that answers with the prompt it received in place of an image URL.\<close>

definition echoes :: "nat GeminiService" where
  "echoes n p a = (Returns (Fulfilled p), Suc n)"

section \<open>Facts about the parts\<close>

lemma foldl_push:
  "foldl (\<lambda>acc result. case result of Status_fulfilled v \<Rightarrow> acc @ [v] | Status_rejected reason \<Rightarrow> acc) acc rs
     = acc @ List.map_filter (\<lambda>r. case r of Status_fulfilled v \<Rightarrow> Some v | Status_rejected e \<Rightarrow> None) rs"
  by (induction rs arbitrary: acc) (auto split: settled_result.splits)

lemma successfulBanners_map_filter:
  "successfulBanners rs
     = List.map_filter (\<lambda>r. case r of Status_fulfilled v \<Rightarrow> Some v | Status_rejected e \<Rightarrow> None) rs"
  by (simp add: successfulBanners_def foldl_push)

lemma allSettled_values:
  "allSettled ps = Some rs \<Longrightarrow>
     List.map_filter (\<lambda>r. case r of Status_fulfilled v \<Rightarrow> Some v | Status_rejected e \<Rightarrow> None) rs
       = List.map_filter fulfilled_value ps"
  by (induction ps arbitrary: rs rule: allSettled.induct)
     (auto simp: fulfilled_value_def)

lemma allSettled_None_iff: "allSettled ps = None \<longleftrightarrow> Pending \<in> set ps"
  by (induction ps rule: allSettled.induct) auto

lemma map_formats_entries:
  "map_formats g this b fs s = (r, s', log) \<Longrightarrow> c \<in> set log \<Longrightarrow>
     prompt c = formatPrompt b (of_format c) \<and> ratio c = BannerFormat.aspectRatio (of_format c) \<and>
     component c = this \<and>
     chained c = (case returned c of Throws e \<Rightarrow> None
                  | Returns p \<Rightarrow> Some (promise_then (toBanner (of_format c)) p))"
  by (induction fs arbitrary: s r s' log c)
     (auto split: prod.splits call_result.splits sum.splits)

lemma map_formats_prefix:
  "map_formats g this b fs s = (r, s', log) \<Longrightarrow> map of_format log = take (length log) fs"
  by (induction fs arbitrary: s r s' log)
     (auto split: prod.splits call_result.splits sum.splits)

lemma map_formats_nonempty:
  "map_formats g this b fs s = (r, s', log) \<Longrightarrow> fs \<noteq> [] \<Longrightarrow> log \<noteq> []"
  by (cases fs) (auto split: prod.splits call_result.splits sum.splits)

lemma map_formats_Inr_formats:
  "map_formats g this b fs s = (Inr ps, s', log) \<Longrightarrow> map of_format log = fs"
  by (induction fs arbitrary: s ps s' log)
     (auto split: prod.splits call_result.splits sum.splits)

lemma map_formats_Inr_values:
  "map_formats g this b fs s = (Inr ps, s', log) \<Longrightarrow>
     List.map_filter fulfilled_value ps = List.map_filter displayed log"
proof (induction fs arbitrary: s ps s' log)
  case Nil
  then show ?case by simp
next
  case (Cons f fs)
  then show ?case
    by (auto simp: fulfilled_value_def displayed_def fulfilled_url_def
             split: prod.splits call_result.splits sum.splits promise.splits)
qed

lemma map_formats_Inr_pending:
  "map_formats g this b fs s = (Inr ps, s', log) \<Longrightarrow>
     Pending \<in> set ps \<longleftrightarrow> (\<exists>c\<in>set log. returned c = Returns Pending)"
proof (induction fs arbitrary: s ps s' log)
  case Nil
  then show ?case by simp
next
  case (Cons f fs)
  obtain p s1 where g: "g s (formatPrompt b f) (BannerFormat.aspectRatio f) = (Returns p, s1)"
    using Cons.prems by (auto split: prod.splits call_result.splits sum.splits)
  obtain qs log' where rest: "map_formats g this b fs s1 = (Inr qs, s', log')"
    and ps: "ps = promise_then (toBanner f) p # qs"
    and log: "log = \<lparr>of_format = f, prompt = formatPrompt b f,
                 ratio = BannerFormat.aspectRatio f, component = this,
                 returned = Returns p, chained = Some (promise_then (toBanner f) p)\<rparr> # log'"
    using Cons.prems g by (auto split: prod.splits sum.splits)
  have "promise_then (toBanner f) p = Pending \<longleftrightarrow> p = Pending"
    by (cases p) auto
  with Cons.IH[OF rest] ps log show ?case by auto
qed

lemma map_formats_Inr_returns:
  "map_formats g this b fs s = (Inr ps, s', log) \<Longrightarrow> c \<in> set log \<Longrightarrow> \<exists>p. returned c = Returns p"
  by (induction fs arbitrary: s ps s' log)
     (auto split: prod.splits call_result.splits sum.splits)

lemma map_formats_throw:
  "map_formats g this b fs s = (r, s', log) \<Longrightarrow> c \<in> set log \<Longrightarrow> returned c = Throws e \<Longrightarrow> r = Inl e"
  by (induction fs arbitrary: s r s' log)
     (auto split: prod.splits call_result.splits sum.splits)

lemma map_formats_Inl:
  "map_formats g this b fs s = (Inl e, s', log) \<Longrightarrow>
     log \<noteq> [] \<and> returned (last log) = Throws e \<and> (\<forall>c\<in>set (butlast log). \<exists>p. returned c = Returns p)"
  by (induction fs arbitrary: s s' log)
     (auto split: prod.splits call_result.splits sum.splits)


lemma foldl_handle_frame:
  "isLoading (foldl handle a evs) = isLoading a \<and> error (foldl handle a evs) = error a \<and>
   generatedBanners (foldl handle a evs) = generatedBanners a"
proof (induction evs arbitrary: a)
  case Nil
  show ?case by simp
next
  case (Cons ev evs)
  show ?case
    by (cases ev) (simp_all add: Cons.IH updateDescription_def updateUrl_def selectTemplate_def)
qed

lemma generateBanners_guard:
  "isLoading this \<or> trim (productDescription this) = [] \<Longrightarrow>
     generateBanners g evs this s = \<lparr>path = Guard_return, app = this, gemini = s, calls = []\<rparr>"
  by (simp add: generateBanners_def)

lemma generateBanners_accepted_cases:
  assumes "\<not> isLoading this" and "trim (productDescription this) \<noteq> []"
  obtains
    (Caught) e s' log where
      "map_formats g (begin_round this) (basePrompt (begin_round this)) bannerFormats s = (Inl e, s', log)"
      "generateBanners g evs this s =
         \<lparr>path = After_catch e, app = finally_block (catch_block e (begin_round this)),
          gemini = s', calls = log\<rparr>"
  | (Hung) ps s' log where
      "map_formats g (begin_round this) (basePrompt (begin_round this)) bannerFormats s = (Inr ps, s', log)"
      "allSettled ps = None"
      "generateBanners g evs this s =
         \<lparr>path = Never_resumed, app = foldl handle (begin_round this) evs, gemini = s', calls = log\<rparr>"
  | (Aggregated) ps rs s' log where
      "map_formats g (begin_round this) (basePrompt (begin_round this)) bannerFormats s = (Inr ps, s', log)"
      "allSettled ps = Some rs"
      "generateBanners g evs this s =
         \<lparr>path = After_aggregation,
          app = finally_block (aggregate rs (foldl handle (begin_round this) evs)),
          gemini = s', calls = log\<rparr>"
proof -
  obtain r s' log where mf:
    "map_formats g (begin_round this) (basePrompt (begin_round this)) bannerFormats s = (r, s', log)"
    by (cases "map_formats g (begin_round this) (basePrompt (begin_round this)) bannerFormats s") auto
  show thesis
  proof (cases r)
    case (Inl e)
    with mf assms show thesis
      by (intro Caught[of e s' log]) (simp_all add: generateBanners_def Let_def)
  next
    case (Inr ps)
    show thesis
    proof (cases "allSettled ps")
      case None
      with mf Inr assms show thesis
        by (intro Hung[of ps s' log]) (simp_all add: generateBanners_def Let_def)
    next
      case (Some rs)
      with mf Inr assms show thesis
        by (intro Aggregated[of ps s' log rs]) (simp_all add: generateBanners_def Let_def)
    qed
  qed
qed


lemma After_aggregationE:
  assumes "path (generateBanners g evs this s) = After_aggregation"
  obtains ps rs s' log where
    "\<not> isLoading this" "trim (productDescription this) \<noteq> []"
    "map_formats g (begin_round this) (basePrompt (begin_round this)) bannerFormats s = (Inr ps, s', log)"
    "allSettled ps = Some rs"
    "generateBanners g evs this s =
       \<lparr>path = After_aggregation,
        app = finally_block (aggregate rs (foldl handle (begin_round this) evs)),
        gemini = s', calls = log\<rparr>"
proof -
  have acc: "\<not> isLoading this" "trim (productDescription this) \<noteq> []"
    using assms generateBanners_guard[of this g evs s] by auto
  show thesis
    using acc assms that
    by (cases rule: generateBanners_accepted_cases[OF acc, of g s evs]) auto
qed

lemma length_map_filter:
  "length (List.map_filter f xs) = length (filter (\<lambda>x. f x \<noteq> None) xs)"
  by (simp add: List.map_filter_def)

lemma displayed_None_iff: "displayed c = None \<longleftrightarrow> fulfilled_url c = None"
  by (simp add: displayed_def)

lemma generatedBanners_aggregate:
  "generatedBanners (finally_block (aggregate rs a)) = successfulBanners rs"
  by (simp add: finally_block_def aggregate_def Let_def)

lemma successful_displayed:
  assumes "map_formats g this1 b fs s = (Inr ps, s', log)" and "allSettled ps = Some rs"
  shows "successfulBanners rs = List.map_filter displayed log"
proof -
  have "successfulBanners rs = List.map_filter fulfilled_value ps"
    using allSettled_values[OF assms(2)] by (simp add: successfulBanners_map_filter)
  also have "\<dots> = List.map_filter displayed log"
    using map_formats_Inr_values[OF assms(1)] .
  finally show ?thesis .
qed

lemma length_bannerFormats: "length bannerFormats = 5"
  by (simp add: bannerFormats_def)

lemma toString_5: "toString 5 = utf16 ''5''"
  by (simp add: toString.simps utf16_def)

lemma initial_accepted: "\<not> isLoading initial \<and> trim (productDescription initial) \<noteq> []"
  by (simp add: initial_def trim_def utf16_def isWhiteSpace_def)


lemma Never_resumedE:
  assumes "path (generateBanners g evs this s) = Never_resumed"
  obtains ps s' log where
    "\<not> isLoading this" "trim (productDescription this) \<noteq> []"
    "map_formats g (begin_round this) (basePrompt (begin_round this)) bannerFormats s = (Inr ps, s', log)"
    "allSettled ps = None"
    "generateBanners g evs this s =
       \<lparr>path = Never_resumed, app = foldl handle (begin_round this) evs, gemini = s', calls = log\<rparr>"
proof -
  have acc: "\<not> isLoading this" "trim (productDescription this) \<noteq> []"
    using assms generateBanners_guard[of this g evs s] by auto
  show thesis
    using acc assms that
    by (cases rule: generateBanners_accepted_cases[OF acc, of g s evs]) auto
qed

lemma After_catchE:
  assumes "path (generateBanners g evs this s) = After_catch e"
  obtains s' log where
    "\<not> isLoading this" "trim (productDescription this) \<noteq> []"
    "map_formats g (begin_round this) (basePrompt (begin_round this)) bannerFormats s = (Inl e, s', log)"
    "generateBanners g evs this s =
       \<lparr>path = After_catch e, app = finally_block (catch_block e (begin_round this)),
        gemini = s', calls = log\<rparr>"
proof -
  have acc: "\<not> isLoading this" "trim (productDescription this) \<noteq> []"
    using assms generateBanners_guard[of this g evs s] by auto
  show thesis
    using acc assms that
    by (cases rule: generateBanners_accepted_cases[OF acc, of g s evs]) auto
qed

lemma accepted_not_Guard_return:
  assumes "\<not> isLoading this" and "trim (productDescription this) \<noteq> []"
  shows "path (generateBanners g evs this s) \<noteq> Guard_return"
  by (cases rule: generateBanners_accepted_cases[OF assms, of g s evs]) auto

lemma returned_isLoading:
  assumes "\<not> isLoading this" and "trim (productDescription this) \<noteq> []"
    and "path (generateBanners g evs this s) \<noteq> Never_resumed"
  shows "\<not> isLoading (app (generateBanners g evs this s))"
  using assms(3)
  by (cases rule: generateBanners_accepted_cases[OF assms(1,2), of g s evs])
     (auto simp: finally_block_def)

lemma Never_resumed_iff:
  assumes "\<not> isLoading this" and "trim (productDescription this) \<noteq> []"
  shows "path (generateBanners g evs this s) = Never_resumed \<longleftrightarrow>
           (\<forall>c\<in>set (calls (generateBanners g evs this s)). \<forall>e. returned c \<noteq> Throws e) \<and>
           (\<exists>c\<in>set (calls (generateBanners g evs this s)). returned c = Returns Pending)"
proof (cases rule: generateBanners_accepted_cases[OF assms, of g s evs, case_names Caught Hung Aggregated])
  case (Caught e s' log)
  have "log \<noteq> []" "returned (last log) = Throws e"
    using map_formats_Inl[OF Caught(1)] by auto
  then have "\<exists>c\<in>set log. returned c = Throws e"
    using last_in_set by blast
  then show ?thesis using Caught(2) by auto
next
  case (Hung ps s' log)
  have "Pending \<in> set ps" using Hung(2) by (simp add: allSettled_None_iff)
  then have "\<exists>c\<in>set log. returned c = Returns Pending"
    using map_formats_Inr_pending[OF Hung(1)] by simp
  moreover have "\<forall>c\<in>set log. \<forall>e. returned c \<noteq> Throws e"
    using map_formats_Inr_returns[OF Hung(1)] by fastforce
  ultimately show ?thesis using Hung(3) by simp
next
  case (Aggregated ps rs s' log)
  have "Pending \<notin> set ps" using Aggregated(2) allSettled_None_iff[of ps] by simp
  then have "\<not> (\<exists>c\<in>set log. returned c = Returns Pending)"
    using map_formats_Inr_pending[OF Aggregated(1)] by simp
  then show ?thesis using Aggregated(3) by simp
qed

lemma throws_iff_After_catch:
  "path (generateBanners g evs this s) = After_catch e \<longleftrightarrow>
     (\<exists>c\<in>set (calls (generateBanners g evs this s)). returned c = Throws e)"
proof (cases "isLoading this \<or> trim (productDescription this) = []")
  case True
  then show ?thesis using generateBanners_guard[of this g evs s] by simp
next
  case False
  then have acc: "\<not> isLoading this" "trim (productDescription this) \<noteq> []" by auto
  show ?thesis
  proof (cases rule: generateBanners_accepted_cases[OF acc, of g s evs, case_names Caught Hung Aggregated])
    case (Caught e' s' log)
    have "log \<noteq> []" "returned (last log) = Throws e'"
      using map_formats_Inl[OF Caught(1)] by auto
    then have ex: "\<exists>c\<in>set log. returned c = Throws e'"
      using last_in_set by blast
    have "\<And>c. c \<in> set log \<Longrightarrow> returned c = Throws e \<Longrightarrow> e = e'"
      using map_formats_throw[OF Caught(1)] by fastforce
    with ex show ?thesis using Caught(2) by auto
  next
    case (Hung ps s' log)
    have "\<forall>c\<in>set log. returned c \<noteq> Throws e"
      using map_formats_Inr_returns[OF Hung(1)] by fastforce
    then show ?thesis using Hung(3) by simp
  next
    case (Aggregated ps rs s' log)
    have "\<forall>c\<in>set log. returned c \<noteq> Throws e"
      using map_formats_Inr_returns[OF Aggregated(1)] by fastforce
    then show ?thesis using Aggregated(3) by simp
  qed
qed

lemma After_catch_state:
  assumes "path (generateBanners g evs this s) = After_catch e"
  shows "app (generateBanners g evs this s) =
           this\<lparr>isLoading := False, generatedBanners := [],
                error := Some (case e of Thrown_error m \<Rightarrow> m
                     | Thrown_other v \<Rightarrow> utf16 ''An unknown error occurred during generation.'')\<rparr>"
  using assms
  by (elim After_catchE) (simp add: finally_block_def catch_block_def begin_round_def)

lemma basePrompt_begin_round: "basePrompt (begin_round this) = basePrompt this"
  by (simp add: basePrompt_def begin_round_def)

lemma calls_of_accepted:
  assumes "\<not> isLoading this" and "trim (productDescription this) \<noteq> []"
  obtains r0 s' where
    "map_formats g (begin_round this) (basePrompt this) bannerFormats s
       = (r0, s', calls (generateBanners g evs this s))"
  by (cases rule: generateBanners_accepted_cases[OF assms, of g s evs])
     (auto simp: basePrompt_begin_round)

lemma calls_guard:
  "isLoading this \<or> trim (productDescription this) = [] \<Longrightarrow> calls (generateBanners g evs this s) = []"
  by (simp add: generateBanners_guard)

lemma bannerFormats_nonempty: "bannerFormats \<noteq> []"
  by (simp add: bannerFormats_def)

lemma set_map_filter: "set (List.map_filter f xs) = {y. \<exists>x\<in>set xs. f x = Some y}"
  by (induction xs) (auto split: option.splits)

lemma After_aggregation_banners:
  assumes "path (generateBanners g evs this s) = After_aggregation"
  shows "generatedBanners (app (generateBanners g evs this s))
           = List.map_filter displayed (calls (generateBanners g evs this s))"
    and "map of_format (calls (generateBanners g evs this s)) = bannerFormats"
proof -
  from assms obtain ps rs s' log where
    mf: "map_formats g (begin_round this) (basePrompt (begin_round this)) bannerFormats s = (Inr ps, s', log)"
    and settled: "allSettled ps = Some rs"
    and r: "generateBanners g evs this s = \<lparr>path = After_aggregation,
        app = finally_block (aggregate rs (foldl handle (begin_round this) evs)),
        gemini = s', calls = log\<rparr>"
    by (auto elim: After_aggregationE)
  show "generatedBanners (app (generateBanners g evs this s))
           = List.map_filter displayed (calls (generateBanners g evs this s))"
    using successful_displayed[OF mf settled] by (simp add: r generatedBanners_aggregate)
  show "map of_format (calls (generateBanners g evs this s)) = bannerFormats"
    using map_formats_Inr_formats[OF mf] by (simp add: r)
qed

lemma calls_formats_prefix:
  "map of_format (calls (generateBanners g evs this s))
     = take (length (calls (generateBanners g evs this s))) bannerFormats"
proof (cases "isLoading this \<or> trim (productDescription this) = []")
  case True
  then show ?thesis by (simp add: calls_guard)
next
  case False
  then obtain r0 s' where
    "map_formats g (begin_round this) (basePrompt this) bannerFormats s
       = (r0, s', calls (generateBanners g evs this s))"
    using calls_of_accepted[of this g s evs] by auto
  then show ?thesis by (rule map_formats_prefix)
qed

lemma calls_entries:
  assumes "c \<in> set (calls (generateBanners g evs this s))"
  shows "prompt c = formatPrompt (basePrompt this) (of_format c)"
    and "ratio c = BannerFormat.aspectRatio (of_format c)"
    and "component c = begin_round this"
    and "chained c = (case returned c of Throws e \<Rightarrow> None
                  | Returns p \<Rightarrow> Some (promise_then (toBanner (of_format c)) p))"
    and "of_format c \<in> set bannerFormats"
proof -
  have acc: "\<not> isLoading this" "trim (productDescription this) \<noteq> []"
    using assms calls_guard[of this g evs s] by auto
  obtain r0 s' where mf:
    "map_formats g (begin_round this) (basePrompt this) bannerFormats s
       = (r0, s', calls (generateBanners g evs this s))"
    using calls_of_accepted[OF acc, of g s evs] by auto
  note e = map_formats_entries[OF mf assms]
  show "prompt c = formatPrompt (basePrompt this) (of_format c)" using e by simp
  show "ratio c = BannerFormat.aspectRatio (of_format c)" using e by simp
  show "component c = begin_round this" using e by simp
  show "chained c = (case returned c of Throws e \<Rightarrow> None
                  | Returns p \<Rightarrow> Some (promise_then (toBanner (of_format c)) p))" using e by simp
  have "of_format c \<in> set (map of_format (calls (generateBanners g evs this s)))"
    using assms by simp
  then show "of_format c \<in> set bannerFormats"
    using calls_formats_prefix[of g evs this s] by (metis in_set_takeD)
qed

lemma distinct_bannerFormats: "distinct bannerFormats"
  by (simp add: bannerFormats_def)

lemma distinct_format_names: "distinct (map BannerFormat.name bannerFormats)"
  by (simp add: bannerFormats_def utf16_def)

lemma distinct_format_labels:
  "distinct (map (\<lambda>f. (aspect_text (BannerFormat.aspectRatio f), BannerFormat.name f)) bannerFormats)"
  by (simp add: bannerFormats_def utf16_def)

lemma banner_labels:
  "map (\<lambda>b. (Banner.aspectRatio b, Banner.name b)) (List.map_filter displayed log)
     = map (\<lambda>f. (aspect_text (BannerFormat.aspectRatio f), BannerFormat.name f))
         (map of_format (filter (\<lambda>c. fulfilled_url c \<noteq> None) log))"
  by (induction log) (auto simp: displayed_def toBanner_def)

lemma format_name_inj:
  "f \<in> set bannerFormats \<Longrightarrow> f' \<in> set bannerFormats \<Longrightarrow>
     BannerFormat.name f = BannerFormat.name f' \<Longrightarrow> f = f'"
  using distinct_format_names by (simp add: distinct_map inj_on_def)

lemma format_ratio_inj:
  "f \<in> set bannerFormats \<Longrightarrow> f' \<in> set bannerFormats \<Longrightarrow>
     aspect_text (BannerFormat.aspectRatio f) = aspect_text (BannerFormat.aspectRatio f') \<Longrightarrow> f = f'"
proof -
  have "distinct (map (\<lambda>f. aspect_text (BannerFormat.aspectRatio f)) bannerFormats)"
    by (simp add: bannerFormats_def utf16_def)
  then show "f \<in> set bannerFormats \<Longrightarrow> f' \<in> set bannerFormats \<Longrightarrow>
     aspect_text (BannerFormat.aspectRatio f) = aspect_text (BannerFormat.aspectRatio f') \<Longrightarrow> f = f'"
    by (simp add: distinct_map inj_on_def)
qed

lemma call_of_format_inj:
  assumes "path (generateBanners g evs this s) = After_aggregation"
    and "c \<in> set (calls (generateBanners g evs this s))"
    and "c' \<in> set (calls (generateBanners g evs this s))"
    and "of_format c' = of_format c"
  shows "c' = c"
proof -
  have "distinct (map of_format (calls (generateBanners g evs this s)))"
    using After_aggregation_banners(2)[OF assms(1)] distinct_bannerFormats by simp
  then have "inj_on of_format (set (calls (generateBanners g evs this s)))"
    by (simp add: distinct_map)
  then show ?thesis using assms(2-4) by (simp add: inj_on_def)
qed

lemma length_calls_le: "length (calls (generateBanners g evs this s)) \<le> 5"
proof -
  have "length (map of_format (calls (generateBanners g evs this s))) \<le> length bannerFormats"
    unfolding calls_formats_prefix[of g evs this s] by simp
  then show ?thesis by (simp add: length_bannerFormats)
qed

lemma sublist_here: "sublist x (x @ b)"
  by simp

lemma sublist_later: "sublist x b \<Longrightarrow> sublist x (a @ b)"
proof -
  assume "sublist x b"
  then obtain ps ss where "b = ps @ x @ ss"
    by (auto simp: sublist_def)
  then have "a @ b = (a @ ps) @ x @ ss"
    by simp
  then show "sublist x (a @ b)"
    unfolding sublist_def by blast
qed

lemma prompt_contains:
  "sublist (productDescription this) (formatPrompt (basePrompt this) f)"
  "sublist (productUrl this) (formatPrompt (basePrompt this) f)"
  "sublist (promptFragment (selectedTemplate this)) (formatPrompt (basePrompt this) f)"
  "sublist (aspect_text (BannerFormat.aspectRatio f)) (formatPrompt (basePrompt this) f)"
  "sublist (BannerFormat.name f) (formatPrompt (basePrompt this) f)"
  unfolding formatPrompt_def basePrompt_def append_assoc
  by ((rule sublist_here | rule sublist_later)+)

lemma prompt_changes_with_fragment:
  "formatPrompt (basePrompt (selectTemplate t this)) f = formatPrompt (basePrompt this) f
     \<longleftrightarrow> promptFragment t = promptFragment (selectedTemplate this)"
  by (simp add: formatPrompt_def basePrompt_def selectTemplate_def)

lemma prompt_preamble:
  "prefix (utf16 ''\<newline>      Create a visually stunning, professional banner ad for a product.\<newline>      The ad should be clean, modern, and eye-catching, suitable for a high-end brand.\<newline>      Avoid text overlays, as text will be added later. Focus on compelling product imagery and a suitable background.'')
     (formatPrompt (basePrompt this) f)"
  by (simp add: formatPrompt_def basePrompt_def utf16_def)


lemma calls_all_formats:
  assumes "\<not> isLoading this" and "trim (productDescription this) \<noteq> []"
    and "\<forall>c\<in>set (calls (generateBanners g evs this s)). \<forall>e. returned c \<noteq> Throws e"
  shows "map of_format (calls (generateBanners g evs this s)) = bannerFormats"
proof (cases rule: generateBanners_accepted_cases[OF assms(1,2), of g s evs, case_names Caught Hung Aggregated])
  case (Caught e s' log)
  have "log \<noteq> []" "returned (last log) = Throws e"
    using map_formats_Inl[OF Caught(1)] by auto
  then have "\<exists>c\<in>set log. returned c = Throws e"
    using last_in_set by blast
  then show ?thesis using assms(3) Caught(2) by auto
next
  case (Hung ps s' log)
  then show ?thesis using map_formats_Inr_formats[OF Hung(1)] by simp
next
  case (Aggregated ps rs s' log)
  then show ?thesis using map_formats_Inr_formats[OF Aggregated(1)] by simp
qed

lemma map_formats_replay:
  "map_formats g this b fs s = (r, s', log) \<Longrightarrow> replay g s log = Some s'"
  by (induction fs arbitrary: s r s' log)
     (auto split: prod.splits call_result.splits sum.splits)

lemma generateBanners_replay:
  "replay g s (calls (generateBanners g evs this s)) = Some (gemini (generateBanners g evs this s))"
proof (cases "isLoading this \<or> trim (productDescription this) = []")
  case True
  then show ?thesis by (simp add: generateBanners_guard)
next
  case False
  then have acc: "\<not> isLoading this" "trim (productDescription this) \<noteq> []" by auto
  show ?thesis
    by (cases rule: generateBanners_accepted_cases[OF acc, of g s evs])
       (auto dest: map_formats_replay)
qed

lemma map_formats_args:
  "map_formats g this b fs s = (r, s', log) \<Longrightarrow>
     map (\<lambda>c. (prompt c, ratio c)) log
       = map (\<lambda>f. (formatPrompt b f, BannerFormat.aspectRatio f)) (take (length log) fs)"
  by (induction fs arbitrary: s r s' log)
     (auto split: prod.splits call_result.splits sum.splits)

lemma map_formats_capturing:
  "map_formats g this b fs s = (r, s', log) \<Longrightarrow>
     map_formats (capturing g) this b fs (s, seen)
       = (r, (s', seen @ map (\<lambda>c. (prompt c, ratio c)) log), log)"
proof (induction fs arbitrary: s seen r s' log)
  case Nil
  then show ?case by simp
next
  case (Cons f fs)
  obtain answer s1 where g: "g s (formatPrompt b f) (BannerFormat.aspectRatio f) = (answer, s1)"
    by (cases "g s (formatPrompt b f) (BannerFormat.aspectRatio f)") auto
  show ?case
  proof (cases answer)
    case (Throws e)
    with g Cons.prems show ?thesis by (auto simp: capturing_def)
  next
    case (Returns p)
    obtain r1 s2 log1 where rest: "map_formats g this b fs s1 = (r1, s2, log1)"
      by (cases "map_formats g this b fs s1") auto
    note ih = Cons.IH[OF rest, of "seen @ [(formatPrompt b f, BannerFormat.aspectRatio f)]"]
    show ?thesis
      using g Returns rest ih Cons.prems by (auto simp: capturing_def)
  qed
qed

lemma generateBanners_capturing:
  "generateBanners (capturing g) evs this (s, seen) =
     \<lparr>path = path (generateBanners g evs this s),
      app = app (generateBanners g evs this s),
      gemini = (gemini (generateBanners g evs this s),
                seen @ map (\<lambda>c. (prompt c, ratio c)) (calls (generateBanners g evs this s))),
      calls = calls (generateBanners g evs this s)\<rparr>"
proof (cases "isLoading this \<or> trim (productDescription this) = []")
  case True
  then show ?thesis by (simp add: generateBanners_def)
next
  case False
  obtain r0 s' log where mf:
    "map_formats g (begin_round this) (basePrompt (begin_round this)) bannerFormats s = (r0, s', log)"
    by (cases "map_formats g (begin_round this) (basePrompt (begin_round this)) bannerFormats s") auto
  show ?thesis
    using False mf map_formats_capturing[OF mf, of seen]
    by (auto simp: generateBanners_def Let_def split: sum.splits option.splits)
qed

lemma captured_arguments:
  "snd (gemini (generateBanners (capturing g) evs this (s, seen)))
     = seen @ map (\<lambda>f. (formatPrompt (basePrompt this) f, BannerFormat.aspectRatio f))
         (take (length (calls (generateBanners g evs this s))) bannerFormats)"
proof (cases "isLoading this \<or> trim (productDescription this) = []")
  case True
  then show ?thesis by (simp add: generateBanners_capturing calls_guard)
next
  case False
  then obtain r0 s' where
    "map_formats g (begin_round this) (basePrompt this) bannerFormats s
       = (r0, s', calls (generateBanners g evs this s))"
    using calls_of_accepted[of this g s evs] by auto
  then show ?thesis
    by (simp add: generateBanners_capturing map_formats_args)
qed


lemma captured_are_prompts:
  assumes "pa \<in> set (snd (gemini (generateBanners (capturing g) evs a (s, []))))"
  obtains f where "f \<in> set bannerFormats"
    and "pa = (formatPrompt (basePrompt a) f, BannerFormat.aspectRatio f)"
proof -
  have "pa \<in> set (map (\<lambda>f. (formatPrompt (basePrompt a) f, BannerFormat.aspectRatio f))
           (take (length (calls (generateBanners g evs a s))) bannerFormats))"
    using assms by (simp add: captured_arguments)
  then obtain f where "f \<in> set (take (length (calls (generateBanners g evs a s))) bannerFormats)"
    and "pa = (formatPrompt (basePrompt a) f, BannerFormat.aspectRatio f)"
    by auto
  then show thesis
    using that in_set_takeD by metis
qed

section \<open>The guard\<close>

text \<open>
  Claim C1. When a round is in progress, or the description is empty once trimmed,
  \<open>generateBanners\<close> returns at the guard: it does not throw, it calls the service not
  at all, and the component is what it was: the loading flag, the error message, the
  displayed banners, the description, the URL and the selected template are unchanged.
\<close>

theorem generateBanners_guard_noop:
  assumes "generateBanners g evs this s = r"
    and "isLoading this \<or> trim (productDescription this) = []"
  shows "path r = Guard_return \<and> calls r = [] \<and> gemini r = s \<and> app r = this \<and>
         isLoading (app r) = isLoading this \<and> error (app r) = error this \<and>
         generatedBanners (app r) = generatedBanners this \<and>
         productDescription (app r) = productDescription this \<and>
         productUrl (app r) = productUrl this \<and>
         selectedTemplate (app r) = selectedTemplate this"
  using assms generateBanners_guard[of this g evs s] by auto

theorem generateBanners_guard_noop_witness:
  "trim (productDescription (initial\<lparr>productDescription := utf16 ''  \<newline> ''\<rparr>)) = [] \<and>
   path (generateBanners fulfils_all [] (initial\<lparr>productDescription := utf16 ''  \<newline> ''\<rparr>) 0)
     = Guard_return \<and>
   app (generateBanners fulfils_all [] (initial\<lparr>productDescription := utf16 ''  \<newline> ''\<rparr>) 0)
     = initial\<lparr>productDescription := utf16 ''  \<newline> ''\<rparr> \<and>
   isLoading (initial\<lparr>isLoading := True\<rparr>) \<and>
   app (generateBanners fulfils_all [] (initial\<lparr>isLoading := True\<rparr>) 0)
     = initial\<lparr>isLoading := True\<rparr>"
proof -
  have blank: "trim (productDescription (initial\<lparr>productDescription := utf16 ''  \<newline> ''\<rparr>)) = []"
    by (simp add: trim_def utf16_def isWhiteSpace_def)
  have busy: "isLoading (initial\<lparr>isLoading := True\<rparr>)"
    by simp
  show ?thesis
    using blank busy
      generateBanners_guard_noop[OF refl disjI2, OF blank, of fulfils_all "[]" 0]
      generateBanners_guard_noop[OF refl disjI1, OF busy, of fulfils_all "[]" 0]
    by simp
qed

section \<open>The input handlers\<close>

text \<open>
  Claim C10. Each of \<open>updateDescription\<close>, \<open>updateUrl\<close> and \<open>selectTemplate\<close> writes
  its own signal and nothing else: the loading flag, the error message, the displayed
  banners and the other two inputs stay as they were.
\<close>

theorem handlers_frame:
  "productDescription (updateDescription v this) = v \<and>
   productUrl (updateDescription v this) = productUrl this \<and>
   selectedTemplate (updateDescription v this) = selectedTemplate this \<and>
   isLoading (updateDescription v this) = isLoading this \<and>
   error (updateDescription v this) = error this \<and>
   generatedBanners (updateDescription v this) = generatedBanners this \<and>
   productUrl (updateUrl v this) = v \<and>
   productDescription (updateUrl v this) = productDescription this \<and>
   selectedTemplate (updateUrl v this) = selectedTemplate this \<and>
   isLoading (updateUrl v this) = isLoading this \<and>
   error (updateUrl v this) = error this \<and>
   generatedBanners (updateUrl v this) = generatedBanners this \<and>
   selectedTemplate (selectTemplate t this) = t \<and>
   productDescription (selectTemplate t this) = productDescription this \<and>
   productUrl (selectTemplate t this) = productUrl this \<and>
   isLoading (selectTemplate t this) = isLoading this \<and>
   error (selectTemplate t this) = error this \<and>
   generatedBanners (selectTemplate t this) = generatedBanners this"
  by (simp add: updateDescription_def updateUrl_def selectTemplate_def)

section \<open>The summary error\<close>

text \<open>
  Claim C2. In a round that reaches aggregation all 5 requests were made and have
  settled. The error message is null exactly when all 5 were fulfilled; with X fulfilled
  requests, X below 5, it is "Could not generate all banner formats. Only X of 5 were
  successful.", X printed in decimal.
\<close>

theorem aggregated_error_message:
  assumes "generateBanners g evs this s = r" and "path r = After_aggregation"
  shows "length (calls r) = 5 \<and> length bannerFormats = 5 \<and>
         (error (app r) = None \<longleftrightarrow>
            length (filter (\<lambda>c. fulfilled_url c \<noteq> None) (calls r)) = 5) \<and>
         (length (filter (\<lambda>c. fulfilled_url c \<noteq> None) (calls r)) < 5 \<longrightarrow>
            error (app r) =
              Some (utf16 ''Could not generate all banner formats. Only ''
                    @ toString (length (filter (\<lambda>c. fulfilled_url c \<noteq> None) (calls r)))
                    @ utf16 '' of 5 were successful.''))"
proof -
  from assms obtain ps rs s' log where
    mf: "map_formats g (begin_round this) (basePrompt (begin_round this)) bannerFormats s = (Inr ps, s', log)"
    and settled: "allSettled ps = Some rs"
    and r: "r = \<lparr>path = After_aggregation,
        app = finally_block (aggregate rs (foldl handle (begin_round this) evs)),
        gemini = s', calls = log\<rparr>"
    by (auto elim: After_aggregationE)
  let ?a = "foldl handle (begin_round this) evs"
  let ?X = "length (filter (\<lambda>c. fulfilled_url c \<noteq> None) log)"
  have len: "length log = 5"
    using map_formats_Inr_formats[OF mf] length_bannerFormats by (metis length_map)
  have succ: "successfulBanners rs = List.map_filter displayed log"
    using mf settled by (rule successful_displayed)
  have X: "length (successfulBanners rs) = ?X"
    by (simp add: succ length_map_filter displayed_None_iff)
  have Xle: "?X \<le> 5"
    using length_filter_le[of "\<lambda>c. fulfilled_url c \<noteq> None" log] len by simp
  have err0: "error ?a = None"
    using foldl_handle_frame[of "begin_round this" evs] by (simp add: begin_round_def)
  have tail: "utf16 '' of '' @ toString 5 @ utf16 '' were successful.'' = utf16 '' of 5 were successful.''"
    by (simp add: toString_5 utf16_def)
  have e1: "error (finally_block (aggregate rs ?a)) = None \<longleftrightarrow> ?X = 5"
    using Xle by (auto simp: finally_block_def aggregate_def Let_def X length_bannerFormats err0)
  have e2: "?X < 5 \<longrightarrow> error (finally_block (aggregate rs ?a)) =
              Some (utf16 ''Could not generate all banner formats. Only '' @ toString ?X
                    @ utf16 '' of 5 were successful.'')"
    using tail by (simp add: finally_block_def aggregate_def Let_def X length_bannerFormats)
  show ?thesis
    using len e1 e2 by (simp add: r length_bannerFormats)
qed

text \<open>
  The rounds of the specification's tests: all five requests fail, two of the five fail
  (Square and Skyscraper), none fails.
\<close>

theorem aggregated_error_message_witness:
  "path (generateBanners rejects_all [] initial 0) = After_aggregation \<and>
   error (app (generateBanners rejects_all [] initial 0)) =
     Some (utf16 ''Could not generate all banner formats. Only 0 of 5 were successful.'') \<and>
   path (generateBanners fails_square_and_skyscraper [] initial 0) = After_aggregation \<and>
   error (app (generateBanners fails_square_and_skyscraper [] initial 0)) =
     Some (utf16 ''Could not generate all banner formats. Only 3 of 5 were successful.'') \<and>
   path (generateBanners fulfils_all [] initial 0) = After_aggregation \<and>
   error (app (generateBanners fulfils_all [] initial 0)) = None"
proof -
  have h0: "path (generateBanners rejects_all [] initial 0) = After_aggregation"
    by (simp add: generateBanners_def initial_accepted Let_def bannerFormats_def rejects_all_def)
  have n0: "length (filter (\<lambda>c. fulfilled_url c \<noteq> None)
             (calls (generateBanners rejects_all [] initial 0))) = 0"
    by (simp add: generateBanners_def initial_accepted Let_def bannerFormats_def rejects_all_def
          fulfilled_url_def)
  have t0: "utf16 ''Could not generate all banner formats. Only '' @ toString 0
          @ utf16 '' of 5 were successful.''
        = utf16 ''Could not generate all banner formats. Only 0 of 5 were successful.''"
    by (simp add: toString.simps utf16_def)
  have h3: "path (generateBanners fails_square_and_skyscraper [] initial 0) = After_aggregation"
    by (simp add: generateBanners_def initial_accepted Let_def bannerFormats_def
          fails_square_and_skyscraper_def)
  have n3: "length (filter (\<lambda>c. fulfilled_url c \<noteq> None)
             (calls (generateBanners fails_square_and_skyscraper [] initial 0))) = 3"
    by (simp add: generateBanners_def initial_accepted Let_def bannerFormats_def
          fails_square_and_skyscraper_def fulfilled_url_def)
  have t3: "utf16 ''Could not generate all banner formats. Only '' @ toString 3
          @ utf16 '' of 5 were successful.''
        = utf16 ''Could not generate all banner formats. Only 3 of 5 were successful.''"
    by (simp add: toString.simps utf16_def)
  have h5: "path (generateBanners fulfils_all [] initial 0) = After_aggregation"
    by (simp add: generateBanners_def initial_accepted Let_def bannerFormats_def fulfils_all_def)
  have n5: "length (filter (\<lambda>c. fulfilled_url c \<noteq> None)
             (calls (generateBanners fulfils_all [] initial 0))) = 5"
    by (simp add: generateBanners_def initial_accepted Let_def bannerFormats_def fulfils_all_def
          fulfilled_url_def)
  show ?thesis
    using aggregated_error_message[OF refl h0] aggregated_error_message[OF refl h3]
      aggregated_error_message[OF refl h5] h0 h3 h5 n0 n3 n5 t0 t3
    by simp
qed

section \<open>The loading flag\<close>

text \<open>
  Claim C3. A call that passes the guard ends with the loading flag false on every exit
  path: after aggregation (all requests fulfilled, some rejected, all rejected) and
  after the \<open>catch\<close> block. It does end, on one of these two paths, whenever no request
  it made is left pending for ever, and whenever a call of the service threw.
\<close>

theorem loading_cleared_on_exit:
  assumes "generateBanners g evs this s = r"
    and "\<not> isLoading this" and "trim (productDescription this) \<noteq> []"
  shows "path r \<noteq> Guard_return \<and>
         (path r \<noteq> Never_resumed \<longrightarrow> \<not> isLoading (app r)) \<and>
         ((\<forall>c\<in>set (calls r). returned c \<noteq> Returns Pending) \<longrightarrow> path r \<noteq> Never_resumed) \<and>
         ((\<exists>c\<in>set (calls r). \<exists>e. returned c = Throws e) \<longrightarrow> path r \<noteq> Never_resumed)"
  using assms(1) accepted_not_Guard_return[OF assms(2,3), of g evs s]
    returned_isLoading[OF assms(2,3), of g evs s] Never_resumed_iff[OF assms(2,3), of g evs s]
  by auto

theorem loading_cleared_on_exit_witness:
  "\<not> isLoading initial \<and> trim (productDescription initial) \<noteq> [] \<and>
   path (generateBanners fulfils_all [] initial 0) = After_aggregation \<and>
   \<not> isLoading (app (generateBanners fulfils_all [] initial 0)) \<and>
   path (generateBanners fails_square_and_skyscraper [UpdateUrl (utf16 ''example.org'')] initial 0)
     = After_aggregation \<and>
   \<not> isLoading (app (generateBanners fails_square_and_skyscraper
                        [UpdateUrl (utf16 ''example.org'')] initial 0)) \<and>
   path (generateBanners rejects_all [] initial 0) = After_aggregation \<and>
   \<not> isLoading (app (generateBanners rejects_all [] initial 0)) \<and>
   path (generateBanners throws_on_second [] initial 0) = After_catch (Thrown_error (utf16 ''busy'')) \<and>
   \<not> isLoading (app (generateBanners throws_on_second [] initial 0))"
proof -
  have a: "\<not> isLoading initial" and d: "trim (productDescription initial) \<noteq> []"
    using initial_accepted by auto
  have p1: "path (generateBanners fulfils_all [] initial 0) = After_aggregation"
    by (simp add: generateBanners_def initial_accepted Let_def bannerFormats_def fulfils_all_def)
  have p2: "path (generateBanners fails_square_and_skyscraper [UpdateUrl (utf16 ''example.org'')] initial 0)
              = After_aggregation"
    by (simp add: generateBanners_def initial_accepted Let_def bannerFormats_def
          fails_square_and_skyscraper_def)
  have p3: "path (generateBanners rejects_all [] initial 0) = After_aggregation"
    by (simp add: generateBanners_def initial_accepted Let_def bannerFormats_def rejects_all_def)
  have p4: "path (generateBanners throws_on_second [] initial 0)
              = After_catch (Thrown_error (utf16 ''busy''))"
    by (simp add: generateBanners_def initial_accepted Let_def bannerFormats_def throws_on_second_def)
  show ?thesis
    using a d p1 p2 p3 p4
      loading_cleared_on_exit[OF refl a d, of fulfils_all "[]" 0]
      loading_cleared_on_exit[OF refl a d, of fails_square_and_skyscraper
        "[UpdateUrl (utf16 ''example.org'')]" 0]
      loading_cleared_on_exit[OF refl a d, of rejects_all "[]" 0]
      loading_cleared_on_exit[OF refl a d, of throws_on_second "[]" 0]
    by simp
qed

section \<open>A failure outside the per-request handling\<close>

text \<open>
  Claim C9. When a call of the service throws inside the \<open>map\<close>, \<open>generateBanners\<close>
  does not throw: it ends after its \<open>catch\<close> block, and only then. The error message is
  the message of the thrown \<open>Error\<close>, or "An unknown error occurred during generation."
  for any other thrown value; the displayed banners are the empty collection that the
  start of the round set, and the loading flag is false.
\<close>

theorem thrown_outside_is_caught:
  assumes "generateBanners g evs this s = r"
  shows "(path r = After_catch e \<longleftrightarrow> (\<exists>c\<in>set (calls r). returned c = Throws e)) \<and>
         (path r = After_catch e \<longrightarrow>
            error (app r) = Some (case e of Thrown_error m \<Rightarrow> m
                  | Thrown_other v \<Rightarrow> utf16 ''An unknown error occurred during generation.'') \<and>
            generatedBanners (app r) = [] \<and> \<not> isLoading (app r) \<and>
            productDescription (app r) = productDescription this \<and>
            productUrl (app r) = productUrl this \<and>
            selectedTemplate (app r) = selectedTemplate this)"
  using assms throws_iff_After_catch[of g evs this s e] After_catch_state[of g evs this s e]
  by auto


theorem thrown_outside_is_caught_witness:
  "path (generateBanners throws_on_second [] initial 0) = After_catch (Thrown_error (utf16 ''busy'')) \<and>
   error (app (generateBanners throws_on_second [] initial 0)) = Some (utf16 ''busy'') \<and>
   generatedBanners (app (generateBanners throws_on_second [] initial 0)) = [] \<and>
   path (generateBanners throws_a_string [] initial 0) = After_catch (Thrown_other (utf16 ''offline'')) \<and>
   error (app (generateBanners throws_a_string [] initial 0))
     = Some (utf16 ''An unknown error occurred during generation.'') \<and>
   \<not> isLoading (app (generateBanners throws_a_string [] initial 0))"
proof -
  have p1: "path (generateBanners throws_on_second [] initial 0)
              = After_catch (Thrown_error (utf16 ''busy''))"
    by (simp add: generateBanners_def initial_accepted Let_def bannerFormats_def throws_on_second_def)
  have p2: "path (generateBanners throws_a_string [] initial 0)
              = After_catch (Thrown_other (utf16 ''offline''))"
    by (simp add: generateBanners_def initial_accepted Let_def bannerFormats_def throws_a_string_def)
  show ?thesis
    using p1 p2
      thrown_outside_is_caught[OF refl, of throws_on_second "[]" initial 0 "Thrown_error (utf16 ''busy'')"]
      thrown_outside_is_caught[OF refl, of throws_a_string "[]" initial 0 "Thrown_other (utf16 ''offline'')"]
    by simp
qed

section \<open>The start of a round\<close>

text \<open>
  Claim C7. In a call that passes the guard, every request is dispatched from a component
  whose loading flag is true, whose error is null and whose banner collection is empty
  (the inputs being those of the call), and that is the component the user sees while
  the requests are in flight. At least one request is dispatched. The banners and the
  error that were displayed before the call have no influence on the round.
\<close>

theorem round_starts_from_empty:
  assumes "generateBanners g evs this s = r"
    and "\<not> isLoading this" and "trim (productDescription this) \<noteq> []"
  shows "calls r \<noteq> [] \<and>
         (\<forall>c\<in>set (calls r).
            isLoading (component c) \<and> error (component c) = None \<and>
            generatedBanners (component c) = [] \<and>
            productDescription (component c) = productDescription this \<and>
            productUrl (component c) = productUrl this \<and>
            selectedTemplate (component c) = selectedTemplate this) \<and>
         (path r = Never_resumed \<longrightarrow>
            isLoading (app r) \<and> error (app r) = None \<and> generatedBanners (app r) = []) \<and>
         generateBanners g evs (this\<lparr>generatedBanners := stale, error := old\<rparr>) s = r"
proof -
  obtain r0 s' where mf:
    "map_formats g (begin_round this) (basePrompt this) bannerFormats s = (r0, s', calls r)"
    using calls_of_accepted[OF assms(2,3), of g s evs] assms(1) by auto
  have ne: "calls r \<noteq> []"
    using map_formats_nonempty[OF mf bannerFormats_nonempty] .
  have snap: "\<forall>c\<in>set (calls r). component c = begin_round this"
    using map_formats_entries[OF mf] by blast
  have hung: "path r = Never_resumed \<longrightarrow>
            isLoading (app r) \<and> error (app r) = None \<and> generatedBanners (app r) = []"
  proof
    assume "path r = Never_resumed"
    then have "app r = foldl handle (begin_round this) evs"
      using assms(1) by (auto elim!: Never_resumedE)
    then show "isLoading (app r) \<and> error (app r) = None \<and> generatedBanners (app r) = []"
      using foldl_handle_frame[of "begin_round this" evs] by (simp add: begin_round_def)
  qed
  have same: "generateBanners g evs (this\<lparr>generatedBanners := stale, error := old\<rparr>) s = r"
    using assms by (simp add: generateBanners_def begin_round_def)
  show ?thesis
    using ne snap hung same by (simp add: begin_round_def)
qed


theorem round_starts_from_empty_witness:
  "\<not> isLoading (initial\<lparr>generatedBanners := [toBanner (bannerFormats ! 2) (utf16 ''blob:old'')],
                          error := Some (utf16 ''stale'')\<rparr>) \<and>
   isLoading (component (hd (calls (generateBanners fulfils_all []
     (initial\<lparr>generatedBanners := [toBanner (bannerFormats ! 2) (utf16 ''blob:old'')],
              error := Some (utf16 ''stale'')\<rparr>) 0)))) \<and>
   error (component (hd (calls (generateBanners fulfils_all []
     (initial\<lparr>generatedBanners := [toBanner (bannerFormats ! 2) (utf16 ''blob:old'')],
              error := Some (utf16 ''stale'')\<rparr>) 0)))) = None \<and>
   generatedBanners (component (hd (calls (generateBanners fulfils_all []
     (initial\<lparr>generatedBanners := [toBanner (bannerFormats ! 2) (utf16 ''blob:old'')],
              error := Some (utf16 ''stale'')\<rparr>) 0)))) = [] \<and>
   path (generateBanners never_settles [] initial 0) = Never_resumed \<and>
   isLoading (app (generateBanners never_settles [] initial 0)) \<and>
   generateBanners fulfils_all []
     (initial\<lparr>generatedBanners := [toBanner (bannerFormats ! 2) (utf16 ''blob:old'')],
              error := Some (utf16 ''stale'')\<rparr>) 0
     = generateBanners fulfils_all [] initial 0"
proof -
  let ?w = "initial\<lparr>generatedBanners := [toBanner (bannerFormats ! 2) (utf16 ''blob:old'')],
                    error := Some (utf16 ''stale'')\<rparr>"
  have a: "\<not> isLoading initial" and d: "trim (productDescription initial) \<noteq> []"
    using initial_accepted by auto
  have a': "\<not> isLoading ?w" and d': "trim (productDescription ?w) \<noteq> []"
    using initial_accepted by auto
  have hung: "path (generateBanners never_settles [] initial 0) = Never_resumed"
    by (simp add: generateBanners_def initial_accepted Let_def bannerFormats_def never_settles_def)
  note w = round_starts_from_empty[OF refl a' d', of fulfils_all "[]" 0]
  have "hd (calls (generateBanners fulfils_all [] ?w 0)) \<in> set (calls (generateBanners fulfils_all [] ?w 0))"
    using w by simp
  then have first: "isLoading (component (hd (calls (generateBanners fulfils_all [] ?w 0))))"
    "error (component (hd (calls (generateBanners fulfils_all [] ?w 0)))) = None"
    "generatedBanners (component (hd (calls (generateBanners fulfils_all [] ?w 0)))) = []"
    using w by blast+
  have same: "generateBanners fulfils_all [] ?w 0 = generateBanners fulfils_all [] initial 0"
    using round_starts_from_empty[OF refl a d, where g = fulfils_all and evs = "[]" and s = 0
        and stale = "[toBanner (bannerFormats ! 2) (utf16 ''blob:old'')]"
        and old = "Some (utf16 ''stale'')"]
    by simp
  show ?thesis
    using a' first hung same round_starts_from_empty[OF refl a d, of never_settles "[]" 0]
    by simp
qed

section \<open>The displayed banners\<close>

text \<open>
  Claim C4, amended. After a call that passed the guard and has ended, the displayed
  collection has at most 5 banners; each of them is the banner of a request of this round
  that was fulfilled, with the aspect ratio and the name of a configured format. When the
  round reached aggregation the collection is exactly the banners of the fulfilled
  requests, one for each; when it ended in the \<open>catch\<close> block the collection is empty.
\<close>

theorem banners_of_completed_round:
  assumes "generateBanners g evs this s = r"
    and "\<not> isLoading this" and "trim (productDescription this) \<noteq> []"
    and "path r \<noteq> Never_resumed"
  shows "length (generatedBanners (app r)) \<le> 5 \<and> length bannerFormats = 5 \<and>
         (\<forall>b\<in>set (generatedBanners (app r)).
            (\<exists>c\<in>set (calls r). \<exists>url. returned c = Returns (Fulfilled url) \<and>
               b = toBanner (of_format c) url) \<and>
            (\<exists>f\<in>set bannerFormats.
               Banner.aspectRatio b = aspect_text (BannerFormat.aspectRatio f) \<and>
               Banner.name b = BannerFormat.name f)) \<and>
         (path r = After_aggregation \<longrightarrow>
            generatedBanners (app r) = List.map_filter displayed (calls r) \<and>
            length (generatedBanners (app r))
              = length (filter (\<lambda>c. fulfilled_url c \<noteq> None) (calls r))) \<and>
         (path r \<noteq> After_aggregation \<longrightarrow> generatedBanners (app r) = [])"
proof (cases "path r = After_aggregation")
  case True
  then have p: "path (generateBanners g evs this s) = After_aggregation"
    using assms(1) by simp
  have gb: "generatedBanners (app r) = List.map_filter displayed (calls r)"
    using After_aggregation_banners(1)[OF p] assms(1) by simp
  have len: "length (generatedBanners (app r))
              = length (filter (\<lambda>c. fulfilled_url c \<noteq> None) (calls r))"
    by (simp add: gb length_map_filter displayed_None_iff)
  have "length (calls r) \<le> 5"
    using length_calls_le[of g evs this s] assms(1) by simp
  then have le: "length (generatedBanners (app r)) \<le> 5"
    unfolding len
    by (rule order_trans[OF length_filter_le])
  have each: "(\<exists>c\<in>set (calls r). \<exists>url. returned c = Returns (Fulfilled url) \<and>
               b = toBanner (of_format c) url) \<and>
            (\<exists>f\<in>set bannerFormats.
               Banner.aspectRatio b = aspect_text (BannerFormat.aspectRatio f) \<and>
               Banner.name b = BannerFormat.name f)"
    if "b \<in> set (generatedBanners (app r))" for b
  proof -
    from that obtain c where c: "c \<in> set (calls r)" and d: "displayed c = Some b"
      by (auto simp: gb set_map_filter)
    from d obtain url where u: "returned c = Returns (Fulfilled url)" "b = toBanner (of_format c) url"
      by (auto simp: displayed_def fulfilled_url_def split: call_result.splits promise.splits)
    have "of_format c \<in> set bannerFormats"
      using calls_entries(5)[of c g evs this s] c assms(1) by simp
    then show ?thesis using c u by (auto simp: toBanner_def)
  qed
  show ?thesis
    using True gb len le each by (simp add: length_bannerFormats)
next
  case False
  have "path r \<noteq> Guard_return"
    using accepted_not_Guard_return[OF assms(2,3), of g evs s] assms(1) by simp
  then obtain e where "path r = After_catch e"
    using False assms(4) by (cases "path r") auto
  then have "generatedBanners (app r) = []"
    using After_catch_state[of g evs this s e] assms(1) by auto
  then show ?thesis
    using False by (simp add: length_bannerFormats)
qed

theorem banners_of_completed_round_witness:
  "\<not> isLoading initial \<and> trim (productDescription initial) \<noteq> [] \<and>
   path (generateBanners fails_square_and_skyscraper [] initial 0) = After_aggregation \<and>
   length (generatedBanners (app (generateBanners fails_square_and_skyscraper [] initial 0))) = 3 \<and>
   path (generateBanners throws_on_second [] initial 0) = After_catch (Thrown_error (utf16 ''busy'')) \<and>
   generatedBanners (app (generateBanners throws_on_second [] initial 0)) = []"
proof -
  have a: "\<not> isLoading initial" and d: "trim (productDescription initial) \<noteq> []"
    using initial_accepted by auto
  have p1: "path (generateBanners fails_square_and_skyscraper [] initial 0) = After_aggregation"
    by (simp add: generateBanners_def initial_accepted Let_def bannerFormats_def
          fails_square_and_skyscraper_def)
  have n1: "length (filter (\<lambda>c. fulfilled_url c \<noteq> None)
             (calls (generateBanners fails_square_and_skyscraper [] initial 0))) = 3"
    by (simp add: generateBanners_def initial_accepted Let_def bannerFormats_def
          fails_square_and_skyscraper_def fulfilled_url_def)
  have p2: "path (generateBanners throws_on_second [] initial 0)
              = After_catch (Thrown_error (utf16 ''busy''))"
    by (simp add: generateBanners_def initial_accepted Let_def bannerFormats_def throws_on_second_def)
  have q1: "path (generateBanners fails_square_and_skyscraper [] initial 0) \<noteq> Never_resumed"
    and q2: "path (generateBanners throws_on_second [] initial 0) \<noteq> Never_resumed"
    using p1 p2 by simp_all
  have "length (generatedBanners (app (generateBanners fails_square_and_skyscraper [] initial 0)))
          = length (filter (\<lambda>c. fulfilled_url c \<noteq> None)
              (calls (generateBanners fails_square_and_skyscraper [] initial 0)))"
    using banners_of_completed_round[OF refl a d q1] p1 by blast
  then have l1: "length (generatedBanners
      (app (generateBanners fails_square_and_skyscraper [] initial 0))) = 3"
    using n1 by simp
  have "path (generateBanners throws_on_second [] initial 0) \<noteq> After_aggregation"
    using p2 by simp
  then have l2: "generatedBanners (app (generateBanners throws_on_second [] initial 0)) = []"
    using banners_of_completed_round[OF refl a d q2] by blast
  show ?thesis
    using a d p1 p2 l1 l2 by blast
qed

text \<open>
  As Claim C4 is written, one banner for each fulfilled request after every completed
  round, it fails: the first request is fulfilled, the second call of the service throws,
  and the round ends in the \<open>catch\<close> block with no banner displayed.
\<close>

theorem fulfilled_request_without_banner:
  "path (generateBanners throws_on_second [] initial 0) = After_catch (Thrown_error (utf16 ''busy'')) \<and>
   map returned (calls (generateBanners throws_on_second [] initial 0))
     = [Returns (Fulfilled (tagged_url Ratio_16_9)), Throws (Thrown_error (utf16 ''busy''))] \<and>
   \<not> isLoading (app (generateBanners throws_on_second [] initial 0)) \<and>
   generatedBanners (app (generateBanners throws_on_second [] initial 0)) = []"
  by (simp add: generateBanners_def initial_accepted Let_def bannerFormats_def throws_on_second_def
        finally_block_def catch_block_def begin_round_def)


text \<open>
  Claim C5. In a round that reaches aggregation the requests were made in the order of
  the configured formats, and the displayed banners are those of the fulfilled requests
  in that order: their labels are a subsequence of the labels of the configured formats
  (which are pairwise different). The order in which the requests settle is no input of
  the result.
\<close>

theorem banners_in_format_order:
  assumes "generateBanners g evs this s = r" and "path r = After_aggregation"
  shows "subseq (map (\<lambda>b. (Banner.aspectRatio b, Banner.name b)) (generatedBanners (app r)))
           (map (\<lambda>f. (aspect_text (BannerFormat.aspectRatio f), BannerFormat.name f)) bannerFormats) \<and>
         distinct (map (\<lambda>f. (aspect_text (BannerFormat.aspectRatio f), BannerFormat.name f))
           bannerFormats) \<and>
         map of_format (calls r) = bannerFormats \<and>
         generatedBanners (app r) = List.map_filter displayed (calls r)"
proof -
  have p: "path (generateBanners g evs this s) = After_aggregation"
    using assms by simp
  have b: "generatedBanners (app r) = List.map_filter displayed (calls r)"
    and f: "map of_format (calls r) = bannerFormats"
    using After_aggregation_banners[OF p] assms(1) by auto
  have "subseq (map of_format (filter (\<lambda>c. fulfilled_url c \<noteq> None) (calls r)))
          (map of_format (calls r))"
    by (intro subseq_map subseq_filter_left)
  then have "subseq (map (\<lambda>b. (Banner.aspectRatio b, Banner.name b)) (generatedBanners (app r)))
           (map (\<lambda>f. (aspect_text (BannerFormat.aspectRatio f), BannerFormat.name f)) bannerFormats)"
    unfolding b banner_labels f by (rule subseq_map)
  then show ?thesis
    using distinct_format_labels b f by simp
qed


theorem banners_in_format_order_witness:
  "path (generateBanners fails_square_and_skyscraper [] initial 0) = After_aggregation \<and>
   subseq
     (map (\<lambda>b. (Banner.aspectRatio b, Banner.name b))
        (generatedBanners (app (generateBanners fails_square_and_skyscraper [] initial 0))))
     (map (\<lambda>f. (aspect_text (BannerFormat.aspectRatio f), BannerFormat.name f)) bannerFormats)"
proof -
  have p1: "path (generateBanners fails_square_and_skyscraper [] initial 0) = After_aggregation"
    by (simp add: generateBanners_def initial_accepted Let_def bannerFormats_def
          fails_square_and_skyscraper_def)
  show ?thesis
    using p1 banners_in_format_order[OF refl p1] by blast
qed

text \<open>
  Claim C6. A request whose promise is fulfilled with an image URL yields, by the
  \<open>.then\<close> callback, the banner with exactly that URL and with the aspect ratio and the
  name of the format the request was made for, whatever the other requests do. When the
  round reaches aggregation that banner is displayed, and it is the only displayed banner
  with that name or that aspect ratio.
\<close>

theorem banner_labelled_by_its_format:
  assumes "generateBanners g evs this s = r"
    and "c \<in> set (calls r)" and "returned c = Returns (Fulfilled url)"
  shows "of_format c \<in> set bannerFormats \<and>
         ratio c = BannerFormat.aspectRatio (of_format c) \<and>
         chained c = Some (Fulfilled
           \<lparr>imageUrl = url,
            Banner.aspectRatio = aspect_text (BannerFormat.aspectRatio (of_format c)),
            Banner.name = BannerFormat.name (of_format c)\<rparr>) \<and>
         (path r = After_aggregation \<longrightarrow>
            \<lparr>imageUrl = url,
             Banner.aspectRatio = aspect_text (BannerFormat.aspectRatio (of_format c)),
             Banner.name = BannerFormat.name (of_format c)\<rparr> \<in> set (generatedBanners (app r)) \<and>
            (\<forall>b\<in>set (generatedBanners (app r)).
               Banner.name b = BannerFormat.name (of_format c) \<or>
               Banner.aspectRatio b = aspect_text (BannerFormat.aspectRatio (of_format c)) \<longrightarrow>
               b = \<lparr>imageUrl = url,
                    Banner.aspectRatio = aspect_text (BannerFormat.aspectRatio (of_format c)),
                    Banner.name = BannerFormat.name (of_format c)\<rparr>))"
proof -
  let ?B = "\<lparr>imageUrl = url,
             Banner.aspectRatio = aspect_text (BannerFormat.aspectRatio (of_format c)),
             Banner.name = BannerFormat.name (of_format c)\<rparr>"
  have c: "c \<in> set (calls (generateBanners g evs this s))"
    using assms by simp
  have disp: "displayed c = Some ?B"
    using assms(3) by (simp add: displayed_def fulfilled_url_def toBanner_def)
  have ch: "chained c = Some (Fulfilled ?B)"
    using calls_entries(4)[OF c] assms(3) by (simp add: toBanner_def)
  have agg: "?B \<in> set (generatedBanners (app r)) \<and>
            (\<forall>b\<in>set (generatedBanners (app r)).
               Banner.name b = BannerFormat.name (of_format c) \<or>
               Banner.aspectRatio b = aspect_text (BannerFormat.aspectRatio (of_format c)) \<longrightarrow>
               b = ?B)"
    if p: "path r = After_aggregation"
  proof -
    have p': "path (generateBanners g evs this s) = After_aggregation"
      using p assms(1) by simp
    have gb: "generatedBanners (app r) = List.map_filter displayed (calls r)"
      using After_aggregation_banners(1)[OF p'] assms(1) by simp
    have mem: "?B \<in> set (generatedBanners (app r))"
      using disp assms(2) by (auto simp: gb set_map_filter)
    have uniq: "b = ?B"
      if b: "b \<in> set (generatedBanners (app r))"
        and k: "Banner.name b = BannerFormat.name (of_format c) \<or>
                Banner.aspectRatio b = aspect_text (BannerFormat.aspectRatio (of_format c))"
      for b
    proof -
      from b obtain c' where c': "c' \<in> set (calls r)" and d': "displayed c' = Some b"
        by (auto simp: gb set_map_filter)
      have c'': "c' \<in> set (calls (generateBanners g evs this s))"
        using c' assms(1) by simp
      have lab: "Banner.name b = BannerFormat.name (of_format c')"
        "Banner.aspectRatio b = aspect_text (BannerFormat.aspectRatio (of_format c'))"
        using d' by (auto simp: displayed_def toBanner_def)
      have "of_format c' = of_format c"
        using k lab calls_entries(5)[OF c] calls_entries(5)[OF c'']
          format_name_inj[of "of_format c'" "of_format c"]
          format_ratio_inj[of "of_format c'" "of_format c"]
        by auto
      then have "c' = c"
        using call_of_format_inj[OF p' c c''] by simp
      then show "b = ?B" using d' disp by simp
    qed
    show ?thesis using mem uniq by blast
  qed
  show ?thesis
    using calls_entries(5)[OF c] calls_entries(2)[OF c] ch agg by blast
qed

theorem banner_labelled_by_its_format_witness:
  "path (generateBanners fails_square_and_skyscraper [] initial 0) = After_aggregation \<and>
   returned (calls (generateBanners fails_square_and_skyscraper [] initial 0) ! 3)
     = Returns (Fulfilled (tagged_url Ratio_3_4)) \<and>
   \<lparr>imageUrl = tagged_url Ratio_3_4, Banner.aspectRatio = utf16 ''3:4'',
    Banner.name = utf16 ''Portrait''\<rparr>
     \<in> set (generatedBanners (app (generateBanners fails_square_and_skyscraper [] initial 0)))"
proof -
  let ?r = "generateBanners fails_square_and_skyscraper [] initial 0"
  have p1: "path ?r = After_aggregation"
    by (simp add: generateBanners_def initial_accepted Let_def bannerFormats_def
          fails_square_and_skyscraper_def)
  have len: "length (calls ?r) = 5"
    by (simp add: generateBanners_def initial_accepted Let_def bannerFormats_def
          fails_square_and_skyscraper_def)
  have ret: "returned (calls ?r ! 3) = Returns (Fulfilled (tagged_url Ratio_3_4))"
    by (simp add: generateBanners_def initial_accepted Let_def bannerFormats_def
          fails_square_and_skyscraper_def)
  have fmt: "of_format (calls ?r ! 3) =
      \<lparr>BannerFormat.name = utf16 ''Portrait'', aspectRatio = Ratio_3_4,
       BannerFormat.description = utf16 ''Vertical format for sidebars''\<rparr>"
    by (simp add: generateBanners_def initial_accepted Let_def bannerFormats_def
          fails_square_and_skyscraper_def)
  have mem: "calls ?r ! 3 \<in> set (calls ?r)"
    using len by simp
  have "\<lparr>imageUrl = tagged_url Ratio_3_4,
         Banner.aspectRatio = aspect_text (BannerFormat.aspectRatio (of_format (calls ?r ! 3))),
         Banner.name = BannerFormat.name (of_format (calls ?r ! 3))\<rparr>
          \<in> set (generatedBanners (app ?r))"
    using banner_labelled_by_its_format[OF refl mem ret] p1 by blast
  then have "\<lparr>imageUrl = tagged_url Ratio_3_4, Banner.aspectRatio = utf16 ''3:4'',
      Banner.name = utf16 ''Portrait''\<rparr> \<in> set (generatedBanners (app ?r))"
    by (simp add: fmt)
  then show ?thesis
    using p1 ret by blast
qed

section \<open>The prompts\<close>

text \<open>
  Claim C8. The service receives, in a round that passes the guard, one call for each
  configured format in their order (up to the first call that throws, all 5 when none
  does), and the first argument of each call is the template literal of line 112 over the
  base prompt of the component as the call of \<open>generateBanners\<close> found it: it starts with
  the fixed instructions and contains the description, the URL, the prompt fragment of
  the selected template, and the aspect ratio and the name of the format it is made for;
  the second argument is that format's aspect ratio. This is stated of the arguments a spy
  on the service captures (the spy changes nothing else of the round), and of the record
  of the round, whose answers are the answers of the service to the recorded arguments.
  After \<open>selectTemplate t\<close> every prompt of the round contains the fragment of \<open>t\<close>, and
  differs from the prompt the round would have sent otherwise exactly when the two
  fragments differ.
\<close>

theorem prompts_embed_inputs:
  "replay g s (calls (generateBanners g evs this s)) = Some (gemini (generateBanners g evs this s)) \<and>
   calls (generateBanners (capturing g) evs this (s, seen)) = calls (generateBanners g evs this s) \<and>
   path (generateBanners (capturing g) evs this (s, seen)) = path (generateBanners g evs this s) \<and>
   app (generateBanners (capturing g) evs this (s, seen)) = app (generateBanners g evs this s) \<and>
   snd (gemini (generateBanners (capturing g) evs this (s, seen)))
     = seen @ map (\<lambda>f. (formatPrompt (basePrompt this) f, BannerFormat.aspectRatio f))
         (take (length (calls (generateBanners g evs this s))) bannerFormats) \<and>
   (\<forall>(p, a)\<in>set (snd (gemini (generateBanners (capturing g) evs this (s, [])))).
      prefix (utf16 ''\<newline>      Create a visually stunning, professional banner ad for a product.\<newline>      The ad should be clean, modern, and eye-catching, suitable for a high-end brand.\<newline>      Avoid text overlays, as text will be added later. Focus on compelling product imagery and a suitable background.'') p \<and>
      sublist (productDescription this) p \<and>
      sublist (productUrl this) p \<and>
      sublist (promptFragment (selectedTemplate this)) p \<and>
      sublist (aspect_text a) p \<and>
      (\<exists>f\<in>set bannerFormats.
         a = BannerFormat.aspectRatio f \<and> p = formatPrompt (basePrompt this) f \<and>
         sublist (BannerFormat.name f) p)) \<and>
   (\<forall>(p, a)\<in>set (snd (gemini (generateBanners (capturing g) evs (selectTemplate t this) (s, [])))).
      sublist (promptFragment t) p \<and>
      sublist (productDescription this) p \<and>
      sublist (productUrl this) p \<and>
      (\<exists>f\<in>set bannerFormats.
         a = BannerFormat.aspectRatio f \<and>
         (p = formatPrompt (basePrompt this) f
            \<longleftrightarrow> promptFragment t = promptFragment (selectedTemplate this)))) \<and>
   (\<forall>c\<in>set (calls (generateBanners g evs this s)).
      of_format c \<in> set bannerFormats \<and>
      ratio c = BannerFormat.aspectRatio (of_format c) \<and>
      prompt c = formatPrompt (basePrompt this) (of_format c) \<and>
      prefix (utf16 ''\<newline>      Create a visually stunning, professional banner ad for a product.\<newline>      The ad should be clean, modern, and eye-catching, suitable for a high-end brand.\<newline>      Avoid text overlays, as text will be added later. Focus on compelling product imagery and a suitable background.'')
        (prompt c) \<and>
      sublist (productDescription this) (prompt c) \<and>
      sublist (productUrl this) (prompt c) \<and>
      sublist (promptFragment (selectedTemplate this)) (prompt c) \<and>
      sublist (aspect_text (ratio c)) (prompt c) \<and>
      sublist (BannerFormat.name (of_format c)) (prompt c)) \<and>
   (\<forall>c\<in>set (calls (generateBanners g evs (selectTemplate t this) s)).
      sublist (promptFragment t) (prompt c) \<and>
      sublist (productDescription this) (prompt c) \<and>
      sublist (productUrl this) (prompt c) \<and>
      (prompt c = formatPrompt (basePrompt this) (of_format c)
         \<longleftrightarrow> promptFragment t = promptFragment (selectedTemplate this))) \<and>
   (\<not> isLoading this \<and> trim (productDescription this) \<noteq> [] \<and>
    (\<forall>c\<in>set (calls (generateBanners g evs this s)). \<forall>e. returned c \<noteq> Throws e) \<longrightarrow>
      map of_format (calls (generateBanners g evs this s)) = bannerFormats \<and>
      length (calls (generateBanners g evs this s)) = 5 \<and>
      snd (gemini (generateBanners (capturing g) evs this (s, [])))
        = map (\<lambda>f. (formatPrompt (basePrompt this) f, BannerFormat.aspectRatio f)) bannerFormats)"
proof -
  have cap: "prefix (utf16 ''\<newline>      Create a visually stunning, professional banner ad for a product.\<newline>      The ad should be clean, modern, and eye-catching, suitable for a high-end brand.\<newline>      Avoid text overlays, as text will be added later. Focus on compelling product imagery and a suitable background.'') p \<and>
      sublist (productDescription a) p \<and>
      sublist (productUrl a) p \<and>
      sublist (promptFragment (selectedTemplate a)) p \<and>
      sublist (aspect_text r) p \<and>
      (\<exists>f\<in>set bannerFormats.
         r = BannerFormat.aspectRatio f \<and> p = formatPrompt (basePrompt a) f \<and>
         sublist (BannerFormat.name f) p)"
    if "(p, r) \<in> set (snd (gemini (generateBanners (capturing g) evs a (s, []))))" for p r a
  proof -
    from that obtain f where f: "f \<in> set bannerFormats"
      and pa: "(p, r) = (formatPrompt (basePrompt a) f, BannerFormat.aspectRatio f)"
      by (rule captured_are_prompts)
    show ?thesis
      using f pa prompt_contains[where this = a and f = f] prompt_preamble[where this = a and f = f]
      by auto
  qed
  have cap_sel: "sublist (promptFragment t) p \<and>
      sublist (productDescription this) p \<and>
      sublist (productUrl this) p \<and>
      (\<exists>f\<in>set bannerFormats.
         r = BannerFormat.aspectRatio f \<and>
         (p = formatPrompt (basePrompt this) f
            \<longleftrightarrow> promptFragment t = promptFragment (selectedTemplate this)))"
    if "(p, r) \<in> set (snd (gemini (generateBanners (capturing g) evs (selectTemplate t this) (s, []))))"
    for p r
  proof -
    from that obtain f where f: "f \<in> set bannerFormats"
      and pa: "(p, r) = (formatPrompt (basePrompt (selectTemplate t this)) f, BannerFormat.aspectRatio f)"
      by (rule captured_are_prompts)
    have sel: "selectedTemplate (selectTemplate t this) = t"
      "productDescription (selectTemplate t this) = productDescription this"
      "productUrl (selectTemplate t this) = productUrl this"
      by (simp_all add: selectTemplate_def)
    have ch: "p = formatPrompt (basePrompt this) f
         \<longleftrightarrow> promptFragment t = promptFragment (selectedTemplate this)"
      using pa prompt_changes_with_fragment[of t this f] by simp
    have "sublist (promptFragment t) p" "sublist (productDescription this) p"
      "sublist (productUrl this) p"
      using cap[OF that] unfolding sel by blast+
    then show ?thesis
      using f pa ch by blast
  qed
  have one: "of_format c \<in> set bannerFormats \<and>
      ratio c = BannerFormat.aspectRatio (of_format c) \<and>
      prompt c = formatPrompt (basePrompt a) (of_format c) \<and>
      prefix (utf16 ''\<newline>      Create a visually stunning, professional banner ad for a product.\<newline>      The ad should be clean, modern, and eye-catching, suitable for a high-end brand.\<newline>      Avoid text overlays, as text will be added later. Focus on compelling product imagery and a suitable background.'')
        (prompt c) \<and>
      sublist (productDescription a) (prompt c) \<and>
      sublist (productUrl a) (prompt c) \<and>
      sublist (promptFragment (selectedTemplate a)) (prompt c) \<and>
      sublist (aspect_text (ratio c)) (prompt c) \<and>
      sublist (BannerFormat.name (of_format c)) (prompt c)"
    if "c \<in> set (calls (generateBanners g evs a s))" for c a
    using calls_entries(1,2,5)[OF that] prompt_contains[where this = a and f = "of_format c"]
      prompt_preamble[where this = a and f = "of_format c"]
    by simp
  have two: "sublist (promptFragment t) (prompt c) \<and>
      sublist (productDescription this) (prompt c) \<and>
      sublist (productUrl this) (prompt c) \<and>
      (prompt c = formatPrompt (basePrompt this) (of_format c)
         \<longleftrightarrow> promptFragment t = promptFragment (selectedTemplate this))"
    if "c \<in> set (calls (generateBanners g evs (selectTemplate t this) s))" for c
  proof -
    have "prompt c = formatPrompt (basePrompt (selectTemplate t this)) (of_format c)"
      using one[OF that] by blast
    then have ch: "prompt c = formatPrompt (basePrompt this) (of_format c)
         \<longleftrightarrow> promptFragment t = promptFragment (selectedTemplate this)"
      using prompt_changes_with_fragment[of t this "of_format c"] by simp
    have sel: "selectedTemplate (selectTemplate t this) = t"
      "productDescription (selectTemplate t this) = productDescription this"
      "productUrl (selectTemplate t this) = productUrl this"
      by (simp_all add: selectTemplate_def)
    show ?thesis
      using one[OF that] ch unfolding sel by blast
  qed
  have three: "map of_format (calls (generateBanners g evs this s)) = bannerFormats \<and>
      length (calls (generateBanners g evs this s)) = 5 \<and>
      snd (gemini (generateBanners (capturing g) evs this (s, [])))
        = map (\<lambda>f. (formatPrompt (basePrompt this) f, BannerFormat.aspectRatio f)) bannerFormats"
    if "\<not> isLoading this \<and> trim (productDescription this) \<noteq> [] \<and>
      (\<forall>c\<in>set (calls (generateBanners g evs this s)). \<forall>e. returned c \<noteq> Throws e)"
  proof -
    have m: "map of_format (calls (generateBanners g evs this s)) = bannerFormats"
      using that calls_all_formats[of this g evs s] by blast
    then have l: "length (calls (generateBanners g evs this s)) = 5"
      using length_bannerFormats by (metis length_map)
    have "snd (gemini (generateBanners (capturing g) evs this (s, [])))
        = map (\<lambda>f. (formatPrompt (basePrompt this) f, BannerFormat.aspectRatio f)) bannerFormats"
      using captured_arguments[of g evs this s "[]"] l length_bannerFormats by simp
    with m l show ?thesis by simp
  qed
  have spy: "calls (generateBanners (capturing g) evs this (s, seen)) = calls (generateBanners g evs this s)"
    "path (generateBanners (capturing g) evs this (s, seen)) = path (generateBanners g evs this s)"
    "app (generateBanners (capturing g) evs this (s, seen)) = app (generateBanners g evs this s)"
    by (simp_all add: generateBanners_capturing)
  have c1: "\<forall>(p, a)\<in>set (snd (gemini (generateBanners (capturing g) evs this (s, [])))).
      prefix (utf16 ''\<newline>      Create a visually stunning, professional banner ad for a product.\<newline>      The ad should be clean, modern, and eye-catching, suitable for a high-end brand.\<newline>      Avoid text overlays, as text will be added later. Focus on compelling product imagery and a suitable background.'') p \<and>
      sublist (productDescription this) p \<and>
      sublist (productUrl this) p \<and>
      sublist (promptFragment (selectedTemplate this)) p \<and>
      sublist (aspect_text a) p \<and>
      (\<exists>f\<in>set bannerFormats.
         a = BannerFormat.aspectRatio f \<and> p = formatPrompt (basePrompt this) f \<and>
         sublist (BannerFormat.name f) p)"
    using cap[of _ _ this] by blast
  have c2: "\<forall>(p, a)\<in>set (snd (gemini (generateBanners (capturing g) evs (selectTemplate t this) (s, [])))).
      sublist (promptFragment t) p \<and>
      sublist (productDescription this) p \<and>
      sublist (productUrl this) p \<and>
      (\<exists>f\<in>set bannerFormats.
         a = BannerFormat.aspectRatio f \<and>
         (p = formatPrompt (basePrompt this) f
            \<longleftrightarrow> promptFragment t = promptFragment (selectedTemplate this)))"
    using cap_sel by blast
  show ?thesis
    using generateBanners_replay[of g s evs this] spy captured_arguments[of g evs this s seen]
      c1 c2 one[of _ this] two three
    by blast
qed


theorem prompts_embed_inputs_witness:
  "snd (gemini (generateBanners (capturing fulfils_all) []
          (selectTemplate (designTemplates ! 3) initial) (0, [])))
     = map (\<lambda>f. (formatPrompt (basePrompt (selectTemplate (designTemplates ! 3) initial)) f,
                  BannerFormat.aspectRatio f)) bannerFormats \<and>
   sublist (promptFragment (designTemplates ! 3))
     (fst (snd (gemini (generateBanners (capturing fulfils_all) []
                  (selectTemplate (designTemplates ! 3) initial) (0, []))) ! 4)) \<and>
   map imageUrl (generatedBanners (app (generateBanners echoes []
          (selectTemplate (designTemplates ! 3) initial) 0)))
     = map (formatPrompt (basePrompt (selectTemplate (designTemplates ! 3) initial))) bannerFormats \<and>
   length (calls (generateBanners fulfils_all [] (selectTemplate (designTemplates ! 3) initial) 0)) = 5 \<and>
   sublist (promptFragment (designTemplates ! 3))
     (prompt (calls (generateBanners fulfils_all [] (selectTemplate (designTemplates ! 3) initial) 0) ! 4)) \<and>
   sublist (productUrl initial)
     (prompt (calls (generateBanners fulfils_all [] (selectTemplate (designTemplates ! 3) initial) 0) ! 4)) \<and>
   sublist (utf16 ''9:16'')
     (prompt (calls (generateBanners fulfils_all [] (selectTemplate (designTemplates ! 3) initial) 0) ! 4)) \<and>
   sublist (utf16 ''Skyscraper'')
     (prompt (calls (generateBanners fulfils_all [] (selectTemplate (designTemplates ! 3) initial) 0) ! 4))"
proof -
  let ?w = "selectTemplate (designTemplates ! 3) initial"
  let ?r = "generateBanners fulfils_all [] ?w 0"
  let ?seen = "snd (gemini (generateBanners (capturing fulfils_all) [] ?w (0, [])))"
  have acc: "\<not> isLoading ?w \<and> trim (productDescription ?w) \<noteq> []"
    using initial_accepted by (simp add: selectTemplate_def)
  have len: "length (calls ?r) = 5"
    by (simp add: generateBanners_def selectTemplate_def initial_accepted Let_def bannerFormats_def
          fulfils_all_def)
  have quiet: "\<forall>c\<in>set (calls ?r). \<forall>e. returned c \<noteq> Throws e"
    by (simp add: generateBanners_def selectTemplate_def initial_accepted Let_def bannerFormats_def
          fulfils_all_def)
  have fmt: "of_format (calls ?r ! 4) =
      \<lparr>BannerFormat.name = utf16 ''Skyscraper'', aspectRatio = Ratio_9_16,
       BannerFormat.description = utf16 ''Tall format for mobile screens''\<rparr>"
    by (simp add: generateBanners_def selectTemplate_def initial_accepted Let_def bannerFormats_def
          fulfils_all_def)
  have mem: "calls ?r ! 4 \<in> set (calls ?r)"
    using len by simp
  note t = prompts_embed_inputs[of fulfils_all 0 "[]" ?w "[]" "designTemplates ! 3"]
  note t' = prompts_embed_inputs[of fulfils_all 0 "[]" initial "[]" "designTemplates ! 3"]
  have seen: "?seen = map (\<lambda>f. (formatPrompt (basePrompt ?w) f, BannerFormat.aspectRatio f)) bannerFormats"
    using t acc quiet by blast
  have "length ?seen = 5"
    by (simp add: seen length_bannerFormats)
  then have "?seen ! 4 \<in> set ?seen"
    by simp
  moreover have "\<forall>pa\<in>set ?seen. sublist (promptFragment (designTemplates ! 3)) (fst pa)"
    using t' by (auto simp: split_beta)
  ultimately have frag: "sublist (promptFragment (designTemplates ! 3)) (fst (?seen ! 4))"
    by blast
  have echo: "map imageUrl (generatedBanners (app (generateBanners echoes [] ?w 0)))
     = map (formatPrompt (basePrompt ?w)) bannerFormats"
    using acc
    by (simp add: generateBanners_def Let_def bannerFormats_def echoes_def
          generatedBanners_aggregate successfulBanners_def toBanner_def basePrompt_begin_round)
  have here: "ratio (calls ?r ! 4) = BannerFormat.aspectRatio (of_format (calls ?r ! 4))"
    "sublist (aspect_text (ratio (calls ?r ! 4))) (prompt (calls ?r ! 4))"
    "sublist (BannerFormat.name (of_format (calls ?r ! 4))) (prompt (calls ?r ! 4))"
    using t mem by blast+
  have tmpl: "sublist (promptFragment (designTemplates ! 3)) (prompt (calls ?r ! 4))"
    "sublist (productUrl initial) (prompt (calls ?r ! 4))"
    using t' mem by blast+
  have "sublist (utf16 ''9:16'') (prompt (calls ?r ! 4))"
    "sublist (utf16 ''Skyscraper'') (prompt (calls ?r ! 4))"
    using here by (simp_all add: fmt)
  then show ?thesis
    using seen frag echo len tmpl by blast
qed

end
